theory Spec2Isabelle
  imports Main "HOL-Library.Word"
begin

unbundle bit_operations_syntax

section \<open>include/commit.h: change types\<close>

text \<open>
  \<^verbatim>\<open>enum CHANGE_TYPE\<close> has no fixed underlying type; both operators cast to
  \<^verbatim>\<open>int\<close>, combine bitwise and cast back. A change type is modelled as the 32-bit
  integer the casts work on.
\<close>

type_synonym CHANGE_TYPE = "32 word"

definition CHT_ADD :: CHANGE_TYPE where
  "CHT_ADD = 1"

definition CHT_REMOVE :: CHANGE_TYPE where
  "CHT_REMOVE = 2"

definition CHT_MODIFY :: CHANGE_TYPE where
  "CHT_MODIFY = 4"

definition CHT_TYPE :: CHANGE_TYPE where
  "CHT_TYPE = CHT_ADD OR CHT_REMOVE OR CHT_MODIFY"

definition CHT_DONE :: CHANGE_TYPE where
  "CHT_DONE = 8"

definition CHT_FLAGS :: CHANGE_TYPE where
  "CHT_FLAGS = CHT_DONE"

text \<open>\<^verbatim>\<open>CHANGE_TYPE operator|( CHANGE_TYPE aTypeA, T aTypeB )\<close>, lines 51-55.\<close>

definition operator_or :: "CHANGE_TYPE \<Rightarrow> 32 word \<Rightarrow> CHANGE_TYPE" where
  "operator_or aTypeA aTypeB = aTypeA OR aTypeB"

text \<open>\<^verbatim>\<open>CHANGE_TYPE operator&( CHANGE_TYPE aTypeA, T aTypeB )\<close>, lines 57-61.\<close>

definition operator_and :: "CHANGE_TYPE \<Rightarrow> 32 word \<Rightarrow> CHANGE_TYPE" where
  "operator_and aTypeA aTypeB = aTypeA AND aTypeB"

text \<open>
  The values of an enumeration without a fixed underlying type are those of the smallest
  bit-field that holds its enumerators: the largest enumerator is \<^verbatim>\<open>CHT_DONE = 8\<close>,
  so the values are \<open>0 .. 15\<close>. The cast \<^verbatim>\<open>CHANGE_TYPE( int )\<close> is defined for
  exactly these.
\<close>

definition representable :: "32 word \<Rightarrow> bool" where
  "representable v = (v \<le> 15)"

section \<open>include/commit.h: class COMMIT\<close>

text \<open>An \<^verbatim>\<open>EDA_ITEM*\<close> is an item identity: the address it holds.\<close>

type_synonym EDA_ITEM = nat

record COMMIT_LINE =
  m_item :: EDA_ITEM
  m_copy :: "EDA_ITEM option"
  m_type :: CHANGE_TYPE

record COMMIT =
  m_changedItems :: "EDA_ITEM set"
  m_changes :: "COMMIT_LINE list"

text \<open>
  The convenience methods, lines 77-113. \<^verbatim>\<open>Stage\<close> is virtual and
  \<^verbatim>\<open>createModified\<close> is defined outside the header, so each method takes the
  function it dispatches to; the value returned is the engine that function returns
  (\<^verbatim>\<open>COMMIT&\<close>).
\<close>

definition Add :: "('c \<Rightarrow> EDA_ITEM \<Rightarrow> CHANGE_TYPE \<Rightarrow> 'c) \<Rightarrow> 'c \<Rightarrow> EDA_ITEM \<Rightarrow> 'c" where
  "Add stage this aItem = stage this aItem CHT_ADD"

definition Added :: "('c \<Rightarrow> EDA_ITEM \<Rightarrow> CHANGE_TYPE \<Rightarrow> 'c) \<Rightarrow> 'c \<Rightarrow> EDA_ITEM \<Rightarrow> 'c" where
  "Added stage this aItem = stage this aItem (operator_or CHT_ADD CHT_DONE)"

definition Remove :: "('c \<Rightarrow> EDA_ITEM \<Rightarrow> CHANGE_TYPE \<Rightarrow> 'c) \<Rightarrow> 'c \<Rightarrow> EDA_ITEM \<Rightarrow> 'c" where
  "Remove stage this aItem = stage this aItem CHT_REMOVE"

definition Removed :: "('c \<Rightarrow> EDA_ITEM \<Rightarrow> CHANGE_TYPE \<Rightarrow> 'c) \<Rightarrow> 'c \<Rightarrow> EDA_ITEM \<Rightarrow> 'c" where
  "Removed stage this aItem = stage this aItem (operator_or CHT_REMOVE CHT_DONE)"

definition Modify :: "('c \<Rightarrow> EDA_ITEM \<Rightarrow> CHANGE_TYPE \<Rightarrow> 'c) \<Rightarrow> 'c \<Rightarrow> EDA_ITEM \<Rightarrow> 'c" where
  "Modify stage this aItem = stage this aItem CHT_MODIFY"

definition Modified ::
  "('c \<Rightarrow> EDA_ITEM \<Rightarrow> EDA_ITEM \<Rightarrow> 32 word \<Rightarrow> 'c) \<Rightarrow> 'c \<Rightarrow> EDA_ITEM \<Rightarrow> EDA_ITEM \<Rightarrow> 'c" where
  "Modified createModified this aItem aCopy = createModified this aItem aCopy 0"

text \<open>\<^verbatim>\<open>StageItems\<close>, lines 115-123: one \<^verbatim>\<open>Stage\<close> per item of the range, in order.\<close>

fun StageItems ::
  "('c \<Rightarrow> EDA_ITEM \<Rightarrow> CHANGE_TYPE \<Rightarrow> 'c) \<Rightarrow> 'c \<Rightarrow> EDA_ITEM list \<Rightarrow> CHANGE_TYPE \<Rightarrow> 'c" where
  "StageItems stage this [] aChangeType = this"
| "StageItems stage this (item # aRange) aChangeType =
     StageItems stage (stage this item aChangeType) aRange aChangeType"

text \<open>\<^verbatim>\<open>Empty\<close>, lines 141-144, and \<^verbatim>\<open>clear\<close>, lines 158-162.\<close>

definition Empty :: "COMMIT \<Rightarrow> bool" where
  "Empty this = (m_changes this = [])"

definition clear :: "COMMIT \<Rightarrow> COMMIT" where
  "clear this = this\<lparr>m_changedItems := {}, m_changes := []\<rparr>"

section \<open>The change ledger\<close>

text \<open>
  Modelled from the spec: the bodies of \<^verbatim>\<open>COMMIT::findEntry\<close>,
  \<^verbatim>\<open>COMMIT::GetStatus\<close>, \<^verbatim>\<open>COMMIT::makeEntry\<close> and \<^verbatim>\<open>COMMIT::Stage\<close>
  (the header only declares them) and the pure virtual \<^verbatim>\<open>Push\<close> and
  \<^verbatim>\<open>Revert\<close>. The definitions of this section follow sections 4.1 and 4.2 of the
  specification.
\<close>

text \<open>
  Modelled from the spec: \<^verbatim>\<open>findEntry\<close> looks a record up by item identity and
  answers with a not-found value (\<open>None\<close>) when the item has none.
\<close>

definition findEntry :: "COMMIT \<Rightarrow> EDA_ITEM \<Rightarrow> COMMIT_LINE option" where
  "findEntry this aItem = find (\<lambda>e. m_item e = aItem) (m_changes this)"

text \<open>
  Modelled from the spec: \<^verbatim>\<open>GetStatus\<close> returns the merged change type of the
  item's record, or 0 when no change is staged for it.
\<close>

definition GetStatus :: "COMMIT \<Rightarrow> EDA_ITEM \<Rightarrow> 32 word" where
  "GetStatus this aItem =
     (case findEntry this aItem of None \<Rightarrow> 0 | Some e \<Rightarrow> m_type e)"

text \<open>
  Modelled from the spec: \<^verbatim>\<open>makeEntry\<close> creates the record of an item staged for
  the first time, at the end of the sequence, and enters the item in the identity set.
\<close>

definition makeEntry :: "COMMIT \<Rightarrow> EDA_ITEM \<Rightarrow> CHANGE_TYPE \<Rightarrow> EDA_ITEM option \<Rightarrow> COMMIT" where
  "makeEntry this aItem aType aCopy =
     this\<lparr>m_changedItems := insert aItem (m_changedItems this),
          m_changes := m_changes this @ [\<lparr>m_item = aItem, m_copy = aCopy, m_type = aType\<rparr>]\<rparr>"

text \<open>Modelled from the spec: deleting the record of an item entirely.\<close>

definition eraseEntry :: "COMMIT \<Rightarrow> EDA_ITEM \<Rightarrow> COMMIT" where
  "eraseEntry this aItem =
     this\<lparr>m_changedItems := m_changedItems this - {aItem},
          m_changes := filter (\<lambda>e. m_item e \<noteq> aItem) (m_changes this)\<rparr>"

text \<open>Modelled from the spec: replacing the record of an item in place.\<close>

definition replaceEntry :: "COMMIT \<Rightarrow> EDA_ITEM \<Rightarrow> COMMIT_LINE \<Rightarrow> COMMIT" where
  "replaceEntry this aItem r =
     this\<lparr>m_changes := map (\<lambda>e. if m_item e = aItem then r else e) (m_changes this)\<rparr>"

text \<open>
  Modelled from the spec: a change type is well formed when exactly one kind bit is set
  and \<^verbatim>\<open>CHT_DONE\<close> does not come with \<^verbatim>\<open>CHT_MODIFY\<close>.
\<close>

definition valid_change :: "CHANGE_TYPE \<Rightarrow> bool" where
  "valid_change t =
     (representable t \<and>
      (operator_and t CHT_TYPE = CHT_ADD \<or> operator_and t CHT_TYPE = CHT_REMOVE
        \<or> operator_and t CHT_TYPE = CHT_MODIFY) \<and>
      operator_and t (CHT_MODIFY OR CHT_DONE) \<noteq> (CHT_MODIFY OR CHT_DONE))"

text \<open>
  Modelled from the spec: \<^verbatim>\<open>Stage\<close> with the merge table of section 4.1. The
  first argument is the binding's way of taking the snapshot a new \<^verbatim>\<open>MODIFY\<close>
  record owns. A call the specification calls a contract violation (an ill-formed change
  type, a change to an item already marked removed) and a pair of kinds the table does
  not list leave the ledger as it is, which is what the specification gives as the
  behaviour of a production build.
\<close>

definition Stage :: "(EDA_ITEM \<Rightarrow> EDA_ITEM) \<Rightarrow> COMMIT \<Rightarrow> EDA_ITEM \<Rightarrow> CHANGE_TYPE \<Rightarrow> COMMIT" where
  "Stage clone this aItem aChangeType =
     (let kind = operator_and aChangeType CHT_TYPE;
          flag = operator_and aChangeType CHT_FLAGS
      in if \<not> valid_change aChangeType then this
         else case findEntry this aItem of
           None \<Rightarrow>
             makeEntry this aItem aChangeType
               (if kind = CHT_MODIFY then Some (clone aItem) else None)
         | Some e \<Rightarrow>
             (let old = operator_and (m_type e) CHT_TYPE
              in if old = CHT_ADD \<and> kind = CHT_REMOVE then eraseEntry this aItem
                 else if old = CHT_ADD \<and> kind = CHT_MODIFY then
                   replaceEntry this aItem (e\<lparr>m_type := operator_or (m_type e) flag\<rparr>)
                 else if old = CHT_REMOVE then this
                 else if old = CHT_MODIFY \<and> kind = CHT_MODIFY then this
                 else if old = CHT_MODIFY \<and> kind = CHT_REMOVE then
                   replaceEntry this aItem
                     \<lparr>m_item = aItem, m_copy = None, m_type = operator_or CHT_REMOVE flag\<rparr>
                 else this))"

text \<open>A sequence of \<^verbatim>\<open>Stage\<close> calls made one after the other on the same engine.\<close>

fun StageAll :: "(EDA_ITEM \<Rightarrow> EDA_ITEM) \<Rightarrow> COMMIT \<Rightarrow> (EDA_ITEM \<times> CHANGE_TYPE) list \<Rightarrow> COMMIT" where
  "StageAll clone this [] = this"
| "StageAll clone this ((aItem, aChangeType) # calls) =
     StageAll clone (Stage clone this aItem aChangeType) calls"

text \<open>
  Modelled from the spec: what \<^verbatim>\<open>Push\<close> does to its collaborators. A record
  without \<^verbatim>\<open>CHT_DONE\<close> mutates the document model (an added item is inserted, a
  removed one deleted, a modified one is left as the caller made it); every record is
  notified to the observers, in insertion order; the ordered records become one undo
  entry when asked for; the ledger is cleared. An empty ledger does nothing.
\<close>

datatype mutation = Insert EDA_ITEM | Delete EDA_ITEM

record push_effects =
  mutations :: "mutation list"
  notifications :: "(CHANGE_TYPE \<times> EDA_ITEM) list"
  undo_entry :: "(string \<times> COMMIT_LINE list) option"
  dirty :: bool
  derived_updated :: bool

definition apply_record :: "COMMIT_LINE \<Rightarrow> mutation list" where
  "apply_record e =
     (if operator_and (m_type e) CHT_DONE \<noteq> 0 then []
      else if operator_and (m_type e) CHT_TYPE = CHT_ADD then [Insert (m_item e)]
      else if operator_and (m_type e) CHT_TYPE = CHT_REMOVE then [Delete (m_item e)]
      else [])"

definition Push :: "COMMIT \<Rightarrow> string \<Rightarrow> bool \<Rightarrow> bool \<Rightarrow> bool \<Rightarrow> push_effects \<times> COMMIT" where
  "Push this aMessage aCreateUndoEntry aSetDirtyBit aUpdateConnectivity =
     (if Empty this then
        (\<lparr>mutations = [], notifications = [], undo_entry = None, dirty = False,
          derived_updated = False\<rparr>, this)
      else
        (\<lparr>mutations = concat (map apply_record (m_changes this)),
          notifications = map (\<lambda>e. (operator_and (m_type e) CHT_TYPE, m_item e)) (m_changes this),
          undo_entry = (if aCreateUndoEntry then Some (aMessage, m_changes this) else None),
          dirty = aSetDirtyBit,
          derived_updated = aUpdateConnectivity\<rparr>, clear this))"

text \<open>
  Modelled from the spec: \<^verbatim>\<open>Revert\<close> restores a modified item from its snapshot,
  takes an added item out of the model and puts a removed one back, then clears the
  ledger; it produces no undo entry.
\<close>

datatype restoration = Restore EDA_ITEM EDA_ITEM | TakeOut EDA_ITEM | PutBack EDA_ITEM

definition revert_record :: "COMMIT_LINE \<Rightarrow> restoration list" where
  "revert_record e =
     (if operator_and (m_type e) CHT_TYPE = CHT_MODIFY then
        (case m_copy e of None \<Rightarrow> [] | Some s \<Rightarrow> [Restore (m_item e) s])
      else if operator_and (m_type e) CHT_TYPE = CHT_ADD then [TakeOut (m_item e)]
      else if operator_and (m_type e) CHT_TYPE = CHT_REMOVE then [PutBack (m_item e)]
      else [])"

definition Revert :: "COMMIT \<Rightarrow> restoration list \<times> COMMIT" where
  "Revert this = (concat (map revert_record (m_changes this)), clear this)"

text \<open>
  The ledger invariant: at most one record per item identity, and the identity set holds
  exactly the items of the records.
\<close>

definition ledger_inv :: "COMMIT \<Rightarrow> bool" where
  "ledger_inv this =
     (distinct (map m_item (m_changes this)) \<and>
      m_changedItems this = set (map m_item (m_changes this)))"

section \<open>footprint_info_impl.cpp: the footprint list\<close>

text \<open>
  The second file of the sources (lines 185-630 of \<^verbatim>\<open>src/include/commit.h\<close>) is
  \<^verbatim>\<open>footprint_info_impl.cpp\<close>. An \<^verbatim>\<open>IO_ERROR\<close> is modelled by its problem text.
  The two classes of exception \<^verbatim>\<open>CatchErrors\<close> has a handler for are the two
  constructors of \<open>exn\<close>; \<open>what\<close> of a \<^verbatim>\<open>std::exception\<close> is its argument.
\<close>

datatype IO_ERROR = IO_ERROR string

datatype exn = Throw_IO_ERROR IO_ERROR | Throw_std_exception string

text \<open>
  The macro \<^verbatim>\<open>THROW_IO_ERROR( msg )\<close> (ki_exception.h, not among the sources) throws
  an \<^verbatim>\<open>IO_ERROR\<close> made from the message; it is modelled by the error it throws.
\<close>

definition THROW_IO_ERROR :: "string \<Rightarrow> IO_ERROR" where
  "THROW_IO_ERROR msg = IO_ERROR msg"

text \<open>
  \<^verbatim>\<open>FOOTPRINT_INFO\<close>: the fields the cache file stores. Both constructors of
  \<^verbatim>\<open>FOOTPRINT_INFO_IMPL\<close> leave an entry loaded, so the getters return the fields.
  \<^verbatim>\<open>int\<close> and \<^verbatim>\<open>unsigned\<close> are 32-bit words, \<^verbatim>\<open>long long\<close> is a 64-bit word.
\<close>

record FOOTPRINT_INFO =
  m_nickname :: string
  m_fpname :: string
  m_doc :: string
  m_keywords :: string
  m_num :: "32 word"
  m_pad_count :: "32 word"
  m_unique_pad_count :: "32 word"

text \<open>The progress reporter the list points to, with what the calls made here change.\<close>

record PROGRESS_REPORTER =
  max_progress :: nat
  progress :: nat
  phase :: nat
  report :: string

text \<open>
  \<^verbatim>\<open>FOOTPRINT_LIST_IMPL\<close>. \<open>m_threads\<close> is the number of worker threads not yet
  joined, \<open>m_total_libs\<close> is \<^verbatim>\<open>m_loader->m_total_libs\<close>.
\<close>

record FOOTPRINT_LIST_IMPL =
  m_list :: "FOOTPRINT_INFO list"
  m_errors :: "IO_ERROR list"
  m_list_timestamp :: "64 word"
  m_cancelled :: bool
  m_count_finished :: nat
  m_queue_in :: "string list"
  m_queue_out :: "string list"
  m_threads :: nat
  m_total_libs :: int
  m_progress_reporter :: "PROGRESS_REPORTER option"

text \<open>
  \<^verbatim>\<open>CatchErrors\<close>, lines 251-279. The wrapped function returns the exception it
  raised, if any, and the list as it left it.
\<close>

definition CatchErrors ::
  "(FOOTPRINT_LIST_IMPL \<Rightarrow> exn option \<times> FOOTPRINT_LIST_IMPL) \<Rightarrow> FOOTPRINT_LIST_IMPL
     \<Rightarrow> bool \<times> FOOTPRINT_LIST_IMPL" where
  "CatchErrors aFunc this =
     (case aFunc this of
        (None, s) \<Rightarrow> (True, s)
      | (Some (Throw_IO_ERROR ioe), s) \<Rightarrow> (False, s\<lparr>m_errors := m_errors s @ [ioe]\<rparr>)
      | (Some (Throw_std_exception what), s) \<Rightarrow>
          (False, s\<lparr>m_errors := m_errors s @ [THROW_IO_ERROR what]\<rparr>))"

text \<open>
  The function \<^verbatim>\<open>loader_job\<close> wraps, lines 288-292. \<^verbatim>\<open>PrefetchLib\<close> belongs to
  the library table: it returns the exception it raises for a nickname, if any.
\<close>

definition prefetch ::
  "(string \<Rightarrow> exn option) \<Rightarrow> string \<Rightarrow> FOOTPRINT_LIST_IMPL \<Rightarrow> exn option \<times> FOOTPRINT_LIST_IMPL" where
  "prefetch PrefetchLib nickname s =
     (case PrefetchLib nickname of
        Some e \<Rightarrow> (Some e, s)
      | None \<Rightarrow> (None, s\<lparr>m_queue_out := m_queue_out s @ [nickname]\<rparr>))"

definition AdvanceProgress :: "FOOTPRINT_LIST_IMPL \<Rightarrow> FOOTPRINT_LIST_IMPL" where
  "AdvanceProgress s =
     (case m_progress_reporter s of
        None \<Rightarrow> s
      | Some r \<Rightarrow> s\<lparr>m_progress_reporter := Some (r\<lparr>progress := progress r + 1\<rparr>)\<rparr>)"

text \<open>
  One pass of the body of the loop of \<^verbatim>\<open>loader_job\<close>, lines 288-297, for the nickname
  just popped.
\<close>

definition loader_step ::
  "(string \<Rightarrow> exn option) \<Rightarrow> string \<Rightarrow> FOOTPRINT_LIST_IMPL \<Rightarrow> FOOTPRINT_LIST_IMPL" where
  "loader_step PrefetchLib nickname s =
     (let s1 = snd (CatchErrors (prefetch PrefetchLib nickname) s);
          s2 = s1\<lparr>m_count_finished := m_count_finished s1 + 1\<rparr>
      in AdvanceProgress s2)"

text \<open>
  \<^verbatim>\<open>loader_job\<close>, lines 282-299, run by one worker with no other thread in between.
  \<^verbatim>\<open>pop\<close> takes the first nickname off the queue before the cancellation flag is
  read.
\<close>

fun loader_loop ::
  "(string \<Rightarrow> exn option) \<Rightarrow> string list \<Rightarrow> FOOTPRINT_LIST_IMPL \<Rightarrow> FOOTPRINT_LIST_IMPL" where
  "loader_loop PrefetchLib [] s = s"
| "loader_loop PrefetchLib (nickname # queue) s =
     (let s1 = s\<lparr>m_queue_in := queue\<rparr>
      in if m_cancelled s1 then s1
         else loader_loop PrefetchLib queue (loader_step PrefetchLib nickname s1))"

definition loader_job :: "(string \<Rightarrow> exn option) \<Rightarrow> FOOTPRINT_LIST_IMPL \<Rightarrow> FOOTPRINT_LIST_IMPL" where
  "loader_job PrefetchLib this = loader_loop PrefetchLib (m_queue_in this) this"

text \<open>
  \<^verbatim>\<open>stopWorkers\<close>, lines 394-412. Joining a worker thread lets its
  \<^verbatim>\<open>loader_job\<close> run to its end.
\<close>

definition stopWorkers :: "(string \<Rightarrow> exn option) \<Rightarrow> FOOTPRINT_LIST_IMPL \<Rightarrow> FOOTPRINT_LIST_IMPL" where
  "stopWorkers PrefetchLib this =
     (let s1 = (loader_job PrefetchLib ^^ m_threads this) this;
          s2 = s1\<lparr>m_threads := 0, m_queue_in := [], m_count_finished := 0\<rparr>
      in if m_cancelled s2 then s2\<lparr>m_list_timestamp := 0\<rparr> else s2)"

text \<open>
  \<^verbatim>\<open>FOOTPRINT_ASYNC_LOADER\<close> is not among the sources: what its \<^verbatim>\<open>Start\<close>,
  \<^verbatim>\<open>Abort\<close> and \<^verbatim>\<open>Join\<close> do to the list is a parameter of
  \<^verbatim>\<open>ReadFootprintFiles\<close>.
\<close>

record FOOTPRINT_ASYNC_LOADER =
  Start :: "FOOTPRINT_LIST_IMPL \<Rightarrow> FOOTPRINT_LIST_IMPL"
  Abort :: "FOOTPRINT_LIST_IMPL \<Rightarrow> FOOTPRINT_LIST_IMPL"
  Join :: "FOOTPRINT_LIST_IMPL \<Rightarrow> FOOTPRINT_LIST_IMPL"

text \<open>
  The waiting loop of \<^verbatim>\<open>ReadFootprintFiles\<close>, lines 325-331. What the loop observes
  of the other threads is given as a list with one element per pass: the answer of
  \<^verbatim>\<open>KeepRefreshing\<close> and the value of \<open>m_count_finished\<close> the workers have
  reached when the pass ends. The result is \<open>None\<close> when the loop is still waiting after
  the last observation.
\<close>

fun wait_for_libs ::
  "(bool \<times> nat) list \<Rightarrow> FOOTPRINT_LIST_IMPL \<Rightarrow> FOOTPRINT_LIST_IMPL option" where
  "wait_for_libs [] s =
     (if \<not> m_cancelled s \<and> int (m_count_finished s) < m_total_libs s then None else Some s)"
| "wait_for_libs ((keepRefreshing, finished) # polls) s =
     (if \<not> m_cancelled s \<and> int (m_count_finished s) < m_total_libs s then
        (let s1 = (if m_progress_reporter s \<noteq> None \<and> \<not> keepRefreshing
                   then s\<lparr>m_cancelled := True\<rparr> else s)
         in wait_for_libs polls (s1\<lparr>m_count_finished := finished\<rparr>))
      else Some s)"

text \<open>
  The calls made on the progress reporter when the list has one: \<^verbatim>\<open>SetMaxProgress\<close>,
  \<^verbatim>\<open>Report\<close> and \<^verbatim>\<open>AdvancePhase\<close>.
\<close>

definition SetMaxProgress :: "nat \<Rightarrow> FOOTPRINT_LIST_IMPL \<Rightarrow> FOOTPRINT_LIST_IMPL" where
  "SetMaxProgress n s =
     (case m_progress_reporter s of
        None \<Rightarrow> s
      | Some r \<Rightarrow> s\<lparr>m_progress_reporter := Some (r\<lparr>max_progress := n\<rparr>)\<rparr>)"

definition Report :: "string \<Rightarrow> FOOTPRINT_LIST_IMPL \<Rightarrow> FOOTPRINT_LIST_IMPL" where
  "Report msg s =
     (case m_progress_reporter s of
        None \<Rightarrow> s
      | Some r \<Rightarrow> s\<lparr>m_progress_reporter := Some (r\<lparr>report := msg\<rparr>)\<rparr>)"

definition AdvancePhase :: "FOOTPRINT_LIST_IMPL \<Rightarrow> FOOTPRINT_LIST_IMPL" where
  "AdvancePhase s =
     (case m_progress_reporter s of
        None \<Rightarrow> s
      | Some r \<Rightarrow> s\<lparr>m_progress_reporter := Some (r\<lparr>phase := phase r + 1\<rparr>)\<rparr>)"

text \<open>
  \<^verbatim>\<open>ReadFootprintFiles\<close>, lines 302-358. \<open>generatedTimestamp\<close> is what
  \<^verbatim>\<open>aTable->GenerateTimestamp( aNickname )\<close> returned.
\<close>

definition ReadFootprintFiles ::
  "FOOTPRINT_ASYNC_LOADER \<Rightarrow> 64 word \<Rightarrow> PROGRESS_REPORTER option \<Rightarrow> (bool \<times> nat) list
     \<Rightarrow> FOOTPRINT_LIST_IMPL \<Rightarrow> (bool \<times> FOOTPRINT_LIST_IMPL) option" where
  "ReadFootprintFiles loader generatedTimestamp aProgressReporter polls this =
     (if generatedTimestamp = m_list_timestamp this then Some (True, this)
      else
        (let s1 = this\<lparr>m_progress_reporter := aProgressReporter\<rparr>;
             s2 = Report ''Fetching footprint libraries...''
                    (SetMaxProgress (length (m_queue_in s1)) s1);
             s3 = s2\<lparr>m_cancelled := False\<rparr>;
             s4 = Start loader s3
         in case wait_for_libs polls s4 of
              None \<Rightarrow> None
            | Some s5 \<Rightarrow>
                (let s6 = (if m_cancelled s5 then Abort loader s5
                           else AdvancePhase (Join loader
                                  (Report ''Loading footprints...''
                                     (AdvancePhase (SetMaxProgress (length (m_queue_out s5)) s5)))));
                     s7 = (if m_cancelled s6 then s6\<lparr>m_list_timestamp := 0\<rparr>
                           else s6\<lparr>m_list_timestamp := generatedTimestamp\<rparr>)
                 in Some (m_errors s7 = [], s7))))"

section \<open>footprint_info_impl.cpp: the cache file\<close>

text \<open>
  What the cache functions call and the sources do not hold, as parameters: the number
  formats of \<^verbatim>\<open>wxString::Format\<close>, \<^verbatim>\<open>wxString::ToLongLong\<close> (from the text and the
  value the variable held to the value it holds afterwards), \<^verbatim>\<open>wxAtoi\<close>, and
  \<^verbatim>\<open>EscapeString\<close> with the context \<^verbatim>\<open>CTX_LINE\<close> and \<^verbatim>\<open>UnescapeString\<close> of
  string_utils. \<^verbatim>\<open>UnescapeString\<close> answers \<open>None\<close> when it raises an exception.
\<close>

record wx_lib =
  Format_lld :: "64 word \<Rightarrow> string"
  Format_d :: "32 word \<Rightarrow> string"
  Format_u :: "32 word \<Rightarrow> string"
  ToLongLong :: "string \<Rightarrow> 64 word \<Rightarrow> 64 word"
  wxAtoi :: "string \<Rightarrow> 32 word"
  EscapeString_CTX_LINE :: "string \<Rightarrow> string"
  UnescapeString :: "string \<Rightarrow> string option"

text \<open>\<^verbatim>\<open>endl\<close> of the text stream: a line feed.\<close>

definition endl :: string where
  "endl = [CHR 0x0A]"

text \<open>What the body of the loop of \<^verbatim>\<open>WriteCacheToFile\<close> sends for one entry, lines 566-572.\<close>

definition write_footprint :: "wx_lib \<Rightarrow> FOOTPRINT_INFO \<Rightarrow> string" where
  "write_footprint wx fpinfo =
     m_nickname fpinfo @ endl @
     m_fpname fpinfo @ endl @
     EscapeString_CTX_LINE wx (m_doc fpinfo) @ endl @
     EscapeString_CTX_LINE wx (m_keywords fpinfo) @ endl @
     Format_d wx (m_num fpinfo) @ endl @
     Format_u wx (m_pad_count fpinfo) @ endl @
     Format_u wx (m_unique_pad_count fpinfo) @ endl"

text \<open>
  \<^verbatim>\<open>WriteCacheToFile\<close>, lines 551-584: the text the file at \<^verbatim>\<open>aFilePath\<close> holds
  afterwards, or \<open>None\<close> when the file is left as it was (the temporary stream is not
  ok, or the rename fails and the temporary file is removed).
\<close>

definition WriteCacheToFile :: "wx_lib \<Rightarrow> bool \<Rightarrow> bool \<Rightarrow> FOOTPRINT_LIST_IMPL \<Rightarrow> string option" where
  "WriteCacheToFile wx outStream_IsOk wxRenameFile_ok this =
     (if \<not> outStream_IsOk then None
      else
        (let txt = Format_lld wx (m_list_timestamp this) @ endl @
                   concat (map (write_footprint wx) (m_list this))
         in if wxRenameFile_ok then Some txt else None))"

text \<open>
  The lines \<^verbatim>\<open>wxTextFile\<close> holds after it opened a text: a line ends at a line feed,
  at a carriage return followed by a line feed, or at a carriage return; the characters
  after the last line end are a line of their own when there are any. The first argument
  is the line read so far.
\<close>

fun wxTextFile_split :: "string \<Rightarrow> string \<Rightarrow> string list" where
  "wxTextFile_split cur [] = (if cur = [] then [] else [cur])"
| "wxTextFile_split cur (c # cs) =
     (if c = CHR 0x0A then cur # wxTextFile_split [] cs
      else if c = CHR 0x0D then
        (case cs of
           [] \<Rightarrow> [cur]
         | d # ds \<Rightarrow>
             if d = CHR 0x0A then cur # wxTextFile_split [] ds
             else cur # wxTextFile_split [] cs)
      else wxTextFile_split (cur @ [c]) cs)"

definition wxTextFile_lines :: "string \<Rightarrow> string list" where
  "wxTextFile_lines txt = wxTextFile_split [] txt"

text \<open>A string that holds no line end.\<close>

definition single_line :: "string \<Rightarrow> bool" where
  "single_line s = (CHR 0x0A \<notin> set s \<and> CHR 0x0D \<notin> set s)"

text \<open>
  \<^verbatim>\<open>GetFirstLine\<close> and \<^verbatim>\<open>GetNextLine\<close> of \<^verbatim>\<open>wxTextFile\<close> answer the line
  at the index asked for. At the end of the file, which is the index just after the last
  line and also where \<^verbatim>\<open>GetFirstLine\<close> reads in a file with no line, the answer is
  the end-of-file string, which is empty. A read further on has no defined result, which
  is the fault \<open>OutOfRange\<close>. \<open>Exception\<close> is an exception raised inside the
  \<^verbatim>\<open>try\<close> block.
\<close>

datatype fault = Exception | OutOfRange

definition line_at :: "string list \<Rightarrow> nat \<Rightarrow> fault + string" where
  "line_at lines n =
     (if n < length lines then Inr (lines ! n)
      else if n = length lines then Inr []
      else Inl OutOfRange)"

text \<open>
  The body of the loop of \<^verbatim>\<open>ReadCacheFromFile\<close>, lines 602-614, with the current line
  at \<open>cur\<close>: seven calls of \<^verbatim>\<open>GetNextLine\<close>, in the order of the source.
\<close>

definition read_footprint :: "wx_lib \<Rightarrow> string list \<Rightarrow> nat \<Rightarrow> fault + FOOTPRINT_INFO" where
  "read_footprint wx lines cur =
     (case line_at lines (cur + 1) of Inl f \<Rightarrow> Inl f | Inr libNickname \<Rightarrow>
      case line_at lines (cur + 2) of Inl f \<Rightarrow> Inl f | Inr name \<Rightarrow>
      case line_at lines (cur + 3) of Inl f \<Rightarrow> Inl f | Inr l3 \<Rightarrow>
      case UnescapeString wx l3 of None \<Rightarrow> Inl Exception | Some desc \<Rightarrow>
      case line_at lines (cur + 4) of Inl f \<Rightarrow> Inl f | Inr l4 \<Rightarrow>
      case UnescapeString wx l4 of None \<Rightarrow> Inl Exception | Some keywords \<Rightarrow>
      case line_at lines (cur + 5) of Inl f \<Rightarrow> Inl f | Inr l5 \<Rightarrow>
      case line_at lines (cur + 6) of Inl f \<Rightarrow> Inl f | Inr l6 \<Rightarrow>
      case line_at lines (cur + 7) of Inl f \<Rightarrow> Inl f | Inr l7 \<Rightarrow>
        Inr \<lparr>m_nickname = libNickname, m_fpname = name, m_doc = desc, m_keywords = keywords,
             m_num = wxAtoi wx l5, m_pad_count = wxAtoi wx l6,
             m_unique_pad_count = wxAtoi wx l7\<rparr>)"

text \<open>
  The loop of \<^verbatim>\<open>ReadCacheFromFile\<close>, lines 600-615: the fault that ended it, if any,
  and the list as the loop left it.
\<close>

function read_footprints ::
  "wx_lib \<Rightarrow> string list \<Rightarrow> nat \<Rightarrow> FOOTPRINT_INFO list \<Rightarrow> fault option \<times> FOOTPRINT_INFO list" where
  "read_footprints wx lines cur lst =
     (if cur + 6 < length lines then
        (case read_footprint wx lines cur of
           Inl f \<Rightarrow> (Some f, lst)
         | Inr fpinfo \<Rightarrow> read_footprints wx lines (cur + 7) (lst @ [fpinfo]))
      else (None, lst))"
  by pat_completeness auto
termination
  by (relation "measure (\<lambda>(wx, lines, cur, lst). length lines - cur)") auto

declare read_footprints.simps [simp del]

text \<open>The sanity check of lines 624-626.\<close>

definition sanity_check :: "FOOTPRINT_LIST_IMPL \<Rightarrow> FOOTPRINT_LIST_IMPL" where
  "sanity_check s = (if length (m_list s) = 0 then s\<lparr>m_list_timestamp := 0\<rparr> else s)"

text \<open>
  \<^verbatim>\<open>ReadCacheFromFile\<close>, lines 587-630. The file is \<open>None\<close> when it does not exist
  or does not open, and its lines otherwise. The result is \<open>None\<close> when a line is read
  beyond the end of the file.
\<close>

definition ReadCacheFromFile ::
  "wx_lib \<Rightarrow> string list option \<Rightarrow> FOOTPRINT_LIST_IMPL \<Rightarrow> FOOTPRINT_LIST_IMPL option" where
  "ReadCacheFromFile wx cacheFile this =
     (let s0 = this\<lparr>m_list_timestamp := 0, m_list := []\<rparr>
      in case cacheFile of
           None \<Rightarrow> Some (sanity_check s0)
         | Some lines \<Rightarrow>
             (case line_at lines 0 of
                Inl f \<Rightarrow> None
              | Inr first \<Rightarrow>
                  (let s1 = s0\<lparr>m_list_timestamp := ToLongLong wx first (m_list_timestamp s0)\<rparr>
                   in case read_footprints wx lines 0 (m_list s1) of
                        (None, lst) \<Rightarrow> Some (sanity_check (s1\<lparr>m_list := lst\<rparr>))
                      | (Some Exception, lst) \<Rightarrow>
                          Some (sanity_check (s1\<lparr>m_list := lst, m_list_timestamp := 0\<rparr>))
                      | (Some OutOfRange, lst) \<Rightarrow> None)))"

section \<open>Definitions the statements use\<close>

text \<open>The entry \<^verbatim>\<open>CatchErrors\<close> appends to the error list for an exception.\<close>

definition recorded :: "exn \<Rightarrow> IO_ERROR" where
  "recorded e = (case e of Throw_IO_ERROR ioe \<Rightarrow> ioe | Throw_std_exception what \<Rightarrow> IO_ERROR what)"

text \<open>
  The record layout the specification gives for the cache file: per entry seven lines, the
  library name, the item name, the escaped description, the escaped keywords, the order
  number, the pad count and the unique pad count.
\<close>

definition entry_lines :: "wx_lib \<Rightarrow> FOOTPRINT_INFO \<Rightarrow> string list" where
  "entry_lines wx fpinfo =
     [m_nickname fpinfo, m_fpname fpinfo,
      EscapeString_CTX_LINE wx (m_doc fpinfo), EscapeString_CTX_LINE wx (m_keywords fpinfo),
      Format_d wx (m_num fpinfo), Format_u wx (m_pad_count fpinfo),
      Format_u wx (m_unique_pad_count fpinfo)]"

text \<open>The whole file of the specification: the timestamp line, then the lines of each entry.\<close>

definition cache_lines :: "wx_lib \<Rightarrow> FOOTPRINT_LIST_IMPL \<Rightarrow> string list" where
  "cache_lines wx this =
     Format_lld wx (m_list_timestamp this) # concat (map (entry_lines wx) (m_list this))"

text \<open>
  An entry as it comes back from the seven lines written for it, \<open>None\<close> when
  \<^verbatim>\<open>UnescapeString\<close> raises on one of the two escaped lines.
\<close>

definition read_back :: "wx_lib \<Rightarrow> FOOTPRINT_INFO \<Rightarrow> FOOTPRINT_INFO option" where
  "read_back wx fpinfo =
     (case UnescapeString wx (EscapeString_CTX_LINE wx (m_doc fpinfo)) of
        None \<Rightarrow> None
      | Some desc \<Rightarrow>
          (case UnescapeString wx (EscapeString_CTX_LINE wx (m_keywords fpinfo)) of
             None \<Rightarrow> None
           | Some keywords \<Rightarrow>
               Some \<lparr>m_nickname = m_nickname fpinfo, m_fpname = m_fpname fpinfo,
                     m_doc = desc, m_keywords = keywords,
                     m_num = wxAtoi wx (Format_d wx (m_num fpinfo)),
                     m_pad_count = wxAtoi wx (Format_u wx (m_pad_count fpinfo)),
                     m_unique_pad_count = wxAtoi wx (Format_u wx (m_unique_pad_count fpinfo))\<rparr>))"

text \<open>
  The cache file as \<^verbatim>\<open>ReadCacheFromFile\<close> finds it, in terms of its lines alone. Line
  \<open>n\<close> of the file is empty at and after the end. Entry \<open>k\<close> of the file is made of the
  seven lines after line \<open>7 * k\<close>; reading it raises an exception when
  \<^verbatim>\<open>UnescapeString\<close> raises on its description line or on its keywords line, and
  gives the footprint made of the seven lines otherwise.
\<close>

definition nth_line :: "string list \<Rightarrow> nat \<Rightarrow> string" where
  "nth_line lines n = (if n < length lines then lines ! n else [])"

definition raises :: "wx_lib \<Rightarrow> string list \<Rightarrow> nat \<Rightarrow> bool" where
  "raises wx lines k =
     (UnescapeString wx (nth_line lines (7 * k + 3)) = None \<or>
      UnescapeString wx (nth_line lines (7 * k + 4)) = None)"

definition entry_at :: "wx_lib \<Rightarrow> string list \<Rightarrow> nat \<Rightarrow> FOOTPRINT_INFO option" where
  "entry_at wx lines k =
     (case UnescapeString wx (nth_line lines (7 * k + 3)) of
        None \<Rightarrow> None
      | Some desc \<Rightarrow>
          (case UnescapeString wx (nth_line lines (7 * k + 4)) of
             None \<Rightarrow> None
           | Some keywords \<Rightarrow>
               Some \<lparr>m_nickname = nth_line lines (7 * k + 1),
                     m_fpname = nth_line lines (7 * k + 2),
                     m_doc = desc, m_keywords = keywords,
                     m_num = wxAtoi wx (nth_line lines (7 * k + 5)),
                     m_pad_count = wxAtoi wx (nth_line lines (7 * k + 6)),
                     m_unique_pad_count = wxAtoi wx (nth_line lines (7 * k + 7))\<rparr>))"

text \<open>
  An instance of the library functions for the examples: \<^verbatim>\<open>EscapeString\<close> writes a
  line feed as \<^verbatim>\<open>{return}\<close>, \<^verbatim>\<open>UnescapeString\<close> reads the escaped description
  of the example back and raises on the text \<^verbatim>\<open>{bad}\<close>.
\<close>

definition wx_example :: wx_lib where
  "wx_example =
     \<lparr>Format_lld = (\<lambda>v. if v = 42 then ''42'' else ''0''),
      Format_d = (\<lambda>v. if v = 1 then ''1'' else ''0''),
      Format_u = (\<lambda>v. if v = 2 then ''2'' else ''0''),
      ToLongLong = (\<lambda>s old. if s = ''42'' then 42 else old),
      wxAtoi = (\<lambda>s. if s = ''1'' then 1 else if s = ''2'' then 2 else 0),
      EscapeString_CTX_LINE = (\<lambda>s. concat (map (\<lambda>c. if c = CHR 0x0A then ''{return}'' else [c]) s)),
      UnescapeString = (\<lambda>s. if s = ''{bad}'' then None
                             else if s = ''two{return}lines'' then Some (''two'' @ [CHR 0x0A] @ ''lines'')
                             else Some s)\<rparr>"

definition fp_example :: FOOTPRINT_INFO where
  "fp_example =
     \<lparr>m_nickname = ''Resistor_SMD'', m_fpname = ''R_0603'',
      m_doc = ''two'' @ [CHR 0x0A] @ ''lines'', m_keywords = ''resistor'',
      m_num = 1, m_pad_count = 2, m_unique_pad_count = 2\<rparr>"

definition list_example :: FOOTPRINT_LIST_IMPL where
  "list_example =
     \<lparr>m_list = [fp_example], m_errors = [], m_list_timestamp = 42, m_cancelled = False,
      m_count_finished = 0, m_queue_in = [], m_queue_out = [], m_threads = 0,
      m_total_libs = 0, m_progress_reporter = None\<rparr>"

text \<open>
  A library table with four libraries of which two fail, a loader whose \<^verbatim>\<open>Abort\<close>
  is \<^verbatim>\<open>stopWorkers\<close> and whose \<^verbatim>\<open>Join\<close> lets the worker finish, and a progress
  reporter, for the examples.
\<close>

definition PrefetchLib_example :: "string \<Rightarrow> exn option" where
  "PrefetchLib_example nickname =
     (if nickname = ''broken'' then Some (Throw_std_exception ''parse error'')
      else if nickname = ''missing'' then Some (Throw_IO_ERROR (IO_ERROR ''no such file''))
      else None)"

definition loader_example :: FOOTPRINT_ASYNC_LOADER where
  "loader_example =
     \<lparr>Start = (\<lambda>s. s\<lparr>m_list := [], m_errors := [], m_count_finished := 0,
                       m_queue_in := [''good'', ''broken'', ''missing'', ''fine''], m_queue_out := [],
                       m_threads := 1, m_total_libs := 4\<rparr>),
      Abort = stopWorkers PrefetchLib_example,
      Join = (\<lambda>s. (loader_job PrefetchLib_example s)\<lparr>m_threads := 0, m_count_finished := 0\<rparr>)\<rparr>"

definition reporter_example :: PROGRESS_REPORTER where
  "reporter_example = \<lparr>max_progress = 0, progress = 0, phase = 0, report = []\<rparr>"

section \<open>Properties of the change types and the change ledger\<close>

lemma chts [simp]:
  "CHT_ADD = 1" "CHT_REMOVE = 2" "CHT_MODIFY = 4" "CHT_DONE = 8" "CHT_TYPE = 7" "CHT_FLAGS = 8"
  by (simp_all add: CHT_ADD_def CHT_REMOVE_def CHT_MODIFY_def CHT_DONE_def CHT_TYPE_def
      CHT_FLAGS_def)

lemma findEntry_None_iff: "findEntry c i = None \<longleftrightarrow> i \<notin> m_item ` set (m_changes c)"
  by (auto simp: findEntry_def find_None_iff)

lemma findEntry_SomeD:
  "findEntry c i = Some e \<Longrightarrow> m_item e = i \<and> e \<in> set (m_changes c)"
  by (auto simp: findEntry_def find_Some_iff)

lemma find_map_other:
  "m_item r = j \<Longrightarrow> j \<noteq> i \<Longrightarrow>
   find (\<lambda>e. m_item e = i) (map (\<lambda>e. if m_item e = j then r else e) xs) = find (\<lambda>e. m_item e = i) xs"
  by (induction xs) auto

lemma find_filter_other:
  "j \<noteq> i \<Longrightarrow> find (\<lambda>e. m_item e = i) (filter (\<lambda>e. m_item e \<noteq> j) xs) = find (\<lambda>e. m_item e = i) xs"
  by (induction xs) auto

lemma find_append_other:
  "m_item r \<noteq> i \<Longrightarrow> find (\<lambda>e. m_item e = i) (xs @ [r]) = find (\<lambda>e. m_item e = i) xs"
  by (induction xs) auto

lemma findEntry_makeEntry_other:
  "j \<noteq> i \<Longrightarrow> findEntry (makeEntry c j t cp) i = findEntry c i"
  by (simp add: findEntry_def makeEntry_def find_append_other)

lemma findEntry_eraseEntry_other:
  "j \<noteq> i \<Longrightarrow> findEntry (eraseEntry c j) i = findEntry c i"
  by (simp add: findEntry_def eraseEntry_def find_filter_other)

lemma findEntry_replaceEntry_other:
  "m_item r = j \<Longrightarrow> j \<noteq> i \<Longrightarrow> findEntry (replaceEntry c j r) i = findEntry c i"
  by (simp add: findEntry_def replaceEntry_def find_map_other)

lemma findEntry_Stage_other:
  assumes "j \<noteq> i"
  shows "findEntry (Stage clone c j t) i = findEntry c i"
proof (cases "findEntry c j")
  case None
  then show ?thesis using assms
    by (simp add: Stage_def Let_def findEntry_makeEntry_other del: chts)
next
  case (Some e)
  then have "m_item e = j" by (simp add: findEntry_SomeD)
  then show ?thesis using assms Some
    by (simp add: Stage_def Let_def findEntry_eraseEntry_other findEntry_replaceEntry_other del: chts)
qed

lemma findEntry_StageAll_other:
  "\<forall>(j, t) \<in> set calls. j \<noteq> i \<Longrightarrow> findEntry (StageAll clone c calls) i = findEntry c i"
  by (induction calls arbitrary: c) (auto simp: findEntry_Stage_other)

lemma inv_makeEntry:
  "ledger_inv c \<Longrightarrow> findEntry c i = None \<Longrightarrow> ledger_inv (makeEntry c i t cp)"
  by (auto simp: ledger_inv_def makeEntry_def findEntry_None_iff)

lemma inv_eraseEntry: "ledger_inv c \<Longrightarrow> ledger_inv (eraseEntry c i)"
  by (auto simp: ledger_inv_def eraseEntry_def distinct_map_filter)

lemma map_item_replace:
  "m_item r = i \<Longrightarrow> map m_item (map (\<lambda>e. if m_item e = i then r else e) xs) = map m_item xs"
  by (induction xs) auto

lemma inv_replaceEntry: "ledger_inv c \<Longrightarrow> m_item r = i \<Longrightarrow> ledger_inv (replaceEntry c i r)"
  by (simp add: ledger_inv_def replaceEntry_def map_item_replace del: map_map)

lemma inv_Stage:
  assumes "ledger_inv c"
  shows "ledger_inv (Stage clone c i t)"
proof (cases "findEntry c i")
  case None
  then show ?thesis using assms
    by (simp add: Stage_def Let_def inv_makeEntry del: chts)
next
  case (Some e)
  then have "m_item e = i" by (simp add: findEntry_SomeD)
  then show ?thesis using assms Some
    by (simp add: Stage_def Let_def inv_eraseEntry inv_replaceEntry del: chts)
qed

lemma inv_StageAll: "ledger_inv c \<Longrightarrow> ledger_inv (StageAll clone c calls)"
  by (induction calls arbitrary: c) (auto simp: inv_Stage)

lemma inv_clear: "ledger_inv (clear c)"
  by (simp add: ledger_inv_def clear_def)


lemma representable_iff: "representable v \<longleftrightarrow> v AND 15 = v"
proof -
  have "v \<le> 15 \<longleftrightarrow> v < 2 ^ 4"
    by (simp add: word_le_nat_alt word_less_nat_alt) arith
  also have "\<dots> \<longleftrightarrow> v AND mask 4 = v"
    by (simp add: mask_eq_iff_w2p word_size)
  finally show ?thesis by (simp add: representable_def mask_eq_exp_minus_1)
qed

lemma representable_or: "representable a \<Longrightarrow> representable b \<Longrightarrow> representable (operator_or a b)"
  by (simp add: representable_iff operator_or_def bit.conj_disj_distrib2)

lemma representable_and: "representable a \<Longrightarrow> representable (operator_and a b)"
  unfolding representable_def operator_and_def
  using word_and_le2 [of a b] by simp

lemma Push_mutations_items:
  "m \<in> set (mutations (fst (Push c msg u d k))) \<Longrightarrow>
   \<exists>j \<in> m_item ` set (m_changes c). m = Insert j \<or> m = Delete j"
  by (auto simp: Push_def apply_record_def split: if_splits)

lemma Push_notifications_items:
  "snd ` set (notifications (fst (Push c msg u d k))) \<subseteq> m_item ` set (m_changes c)"
  by (auto simp: Push_def)

lemma find_append_new:
  "find P xs = None \<Longrightarrow> P r \<Longrightarrow> find P (xs @ [r]) = Some r"
  by (induction xs) (auto split: if_splits)

lemma valid_change_ADD: "valid_change CHT_ADD" and valid_change_REMOVE: "valid_change CHT_REMOVE"
  by (simp_all add: valid_change_def representable_def operator_and_def)

text \<open>
  Claim C4. Each convenience method is \<^verbatim>\<open>Stage\<close> with its change type and returns
  what \<^verbatim>\<open>Stage\<close> returns, whichever override \<^verbatim>\<open>Stage\<close> dispatches to:
  \<^verbatim>\<open>Add\<close> stages \<^verbatim>\<open>CHT_ADD\<close>, \<^verbatim>\<open>Added\<close> stages \<^verbatim>\<open>CHT_ADD | CHT_DONE\<close>,
  \<^verbatim>\<open>Remove\<close> stages \<^verbatim>\<open>CHT_REMOVE\<close>, \<^verbatim>\<open>Removed\<close> stages
  \<^verbatim>\<open>CHT_REMOVE | CHT_DONE\<close>, \<^verbatim>\<open>Modify\<close> stages \<^verbatim>\<open>CHT_MODIFY\<close> (and
  \<^verbatim>\<open>Modified\<close> is \<^verbatim>\<open>createModified\<close> with no extra flags). The two operators
  are the bitwise OR and AND of the underlying integers; the combined types are 9 and 10,
  their kind and flag parts are recovered with \<^verbatim>\<open>CHT_TYPE\<close> and \<^verbatim>\<open>CHT_FLAGS\<close>,
  and the operators stay within the values of the enumeration.
\<close>

theorem convenience_methods_stage:
  "Add stage c i = stage c i CHT_ADD \<and>
   Added stage c i = stage c i (CHT_ADD OR CHT_DONE) \<and>
   Remove stage c i = stage c i CHT_REMOVE \<and>
   Removed stage c i = stage c i (CHT_REMOVE OR CHT_DONE) \<and>
   Modify stage c i = stage c i CHT_MODIFY \<and>
   Modified create c i cp = create c i cp 0 \<and>
   uint (operator_or a b) = uint a OR uint b \<and>
   uint (operator_and a b) = uint a AND uint b \<and>
   operator_or CHT_ADD CHT_DONE = 9 \<and> operator_or CHT_REMOVE CHT_DONE = 10 \<and>
   operator_and (operator_or CHT_ADD CHT_DONE) CHT_TYPE = CHT_ADD \<and>
   operator_and (operator_or CHT_ADD CHT_DONE) CHT_FLAGS = CHT_DONE \<and>
   operator_and (operator_or CHT_REMOVE CHT_DONE) CHT_TYPE = CHT_REMOVE \<and>
   operator_and (operator_or CHT_REMOVE CHT_DONE) CHT_FLAGS = CHT_DONE \<and>
   (representable a \<and> representable b \<longrightarrow>
      representable (operator_or a b) \<and> representable (operator_and a b))"
  by (simp add: Add_def Added_def Remove_def Removed_def Modify_def Modified_def
      operator_or_def operator_and_def uint_or uint_and
      representable_or [unfolded operator_or_def] representable_and [unfolded operator_and_def])

theorem convenience_methods_stage_witness:
  "Added (Stage id) \<lparr>m_changedItems = {}, m_changes = []\<rparr> 5
     = Stage id \<lparr>m_changedItems = {}, m_changes = []\<rparr> 5 9 \<and>
   representable (1::32 word) \<and> representable (8::32 word) \<and>
   representable (operator_or 1 8) \<and> representable (operator_and 1 8) \<and>
   GetStatus (Added (Stage id) \<lparr>m_changedItems = {}, m_changes = []\<rparr> 5) 5 = 9"
  using convenience_methods_stage [of "Stage id" "\<lparr>m_changedItems = {}, m_changes = []\<rparr>" 5 undefined 0 1 8]
  by (simp add: representable_def operator_or_def operator_and_def Stage_def valid_change_def
      findEntry_def makeEntry_def GetStatus_def)

text \<open>
  Claim C1. For an item with no record in the ledger, staging \<^verbatim>\<open>CHT_ADD\<close> and later,
  after any calls of \<^verbatim>\<open>Stage\<close> for other items, \<^verbatim>\<open>CHT_REMOVE\<close> deletes the
  item's record entirely: the lookup finds nothing, the item is in neither the identity set
  nor the record sequence, its status is 0, and \<^verbatim>\<open>Push\<close> neither mutates the model
  for it nor notifies it. With no call in between the ledger is the one before the two calls.
\<close>

theorem add_then_remove_is_noop:
  assumes inv: "ledger_inv c" and fresh: "i \<notin> m_changedItems c"
    and others: "\<forall>(j, t) \<in> set calls. j \<noteq> i"
  shows "let c' = Stage clone (StageAll clone (Stage clone c i CHT_ADD) calls) i CHT_REMOVE;
             eff = fst (Push c' msg u d k)
         in findEntry c' i = None \<and> i \<notin> m_changedItems c' \<and>
            i \<notin> m_item ` set (m_changes c') \<and> GetStatus c' i = 0 \<and>
            Insert i \<notin> set (mutations eff) \<and> Delete i \<notin> set (mutations eff) \<and>
            i \<notin> snd ` set (notifications eff) \<and>
            (calls = [] \<longrightarrow> c' = c)"
proof -
  define c1 where "c1 = Stage clone c i CHT_ADD"
  define c2 where "c2 = StageAll clone c1 calls"
  define c' where "c' = Stage clone c2 i CHT_REMOVE"
  from inv fresh have none: "findEntry c i = None"
    by (simp add: findEntry_None_iff ledger_inv_def)
  then have c1: "c1 = makeEntry c i CHT_ADD None"
    by (simp add: c1_def Stage_def valid_change_ADD [unfolded chts] operator_and_def)
  then have "findEntry c1 i = Some \<lparr>m_item = i, m_copy = None, m_type = CHT_ADD\<rparr>"
    using none by (simp add: findEntry_def makeEntry_def find_append_new)
  then have "findEntry c2 i = Some \<lparr>m_item = i, m_copy = None, m_type = CHT_ADD\<rparr>"
    using others by (simp add: c2_def findEntry_StageAll_other)
  then have c'_eq: "c' = eraseEntry c2 i"
    by (simp add: c'_def Stage_def valid_change_REMOVE [unfolded chts] operator_and_def)
  then have items: "i \<notin> m_item ` set (m_changes c')" and nin: "i \<notin> m_changedItems c'"
    by (auto simp: eraseEntry_def)
  from items have fnd: "findEntry c' i = None" by (simp add: findEntry_None_iff)
  have mut: "Insert i \<notin> set (mutations (fst (Push c' msg u d k)))"
    "Delete i \<notin> set (mutations (fst (Push c' msg u d k)))"
    using items Push_mutations_items [of _ c' msg u d k] by blast+
  have ntf: "i \<notin> snd ` set (notifications (fst (Push c' msg u d k)))"
    using items Push_notifications_items [of c' msg u d k] by blast
  have same: "c' = c" if "calls = []"
  proof -
    from that have "c2 = c1" by (simp add: c2_def)
    moreover have "filter (\<lambda>e. m_item e \<noteq> i) (m_changes c) = m_changes c"
      using none by (auto simp: findEntry_None_iff filter_id_conv)
    ultimately show ?thesis using fresh
      by (simp add: c'_eq c1 eraseEntry_def makeEntry_def)
  qed
  show ?thesis
    unfolding Let_def c'_def [symmetric, unfolded c2_def c1_def]
    using fnd nin items mut ntf same by (simp add: GetStatus_def)
qed

theorem add_then_remove_is_noop_witness:
  "ledger_inv \<lparr>m_changedItems = {2}, m_changes = [\<lparr>m_item = 2, m_copy = Some 20, m_type = CHT_MODIFY\<rparr>]\<rparr> \<and>
   1 \<notin> m_changedItems \<lparr>m_changedItems = {2}, m_changes = [\<lparr>m_item = 2, m_copy = Some 20, m_type = CHT_MODIFY\<rparr>]\<rparr> \<and>
   findEntry (Stage id (StageAll id (Stage id
       \<lparr>m_changedItems = {2}, m_changes = [\<lparr>m_item = 2, m_copy = Some 20, m_type = CHT_MODIFY\<rparr>]\<rparr>
       1 CHT_ADD) [(3, CHT_ADD), (2, CHT_REMOVE)]) 1 CHT_REMOVE) 1 = None \<and>
   Delete 1 \<notin> set (mutations (fst (Push (Stage id (StageAll id (Stage id
       \<lparr>m_changedItems = {2}, m_changes = [\<lparr>m_item = 2, m_copy = Some 20, m_type = CHT_MODIFY\<rparr>]\<rparr>
       1 CHT_ADD) [(3, CHT_ADD), (2, CHT_REMOVE)]) 1 CHT_REMOVE) ''edit'' True True True)))"
proof -
  let ?c = "\<lparr>m_changedItems = {2}, m_changes = [\<lparr>m_item = 2, m_copy = Some 20, m_type = CHT_MODIFY\<rparr>]\<rparr>"
  have h1: "ledger_inv ?c" by (simp add: ledger_inv_def)
  have h2: "1 \<notin> m_changedItems ?c" by simp
  have h3: "\<forall>(j, t) \<in> set [(3, CHT_ADD), (2, CHT_REMOVE)]. j \<noteq> (1::nat)" by simp
  from add_then_remove_is_noop [OF h1 h2 h3, of id "''edit''" True True True] h1 h2
  show ?thesis by (simp add: Let_def)
qed

lemma GetStatus_absent:
  "ledger_inv c \<Longrightarrow> i \<notin> m_changedItems c \<Longrightarrow> findEntry c i = None"
  by (simp add: findEntry_None_iff ledger_inv_def)

lemma GetStatus_present:
  assumes inv: "ledger_inv c" and mem: "i \<in> m_changedItems c"
  shows "\<exists>e \<in> set (m_changes c). findEntry c i = Some e \<and> m_item e = i \<and>
               GetStatus c i = m_type e \<and>
               (\<forall>e' \<in> set (m_changes c). m_item e' = i \<longrightarrow> e' = e)"
proof -
  from mem inv have "findEntry c i \<noteq> None"
    by (simp add: findEntry_None_iff ledger_inv_def)
  then obtain e where e: "findEntry c i = Some e" by blast
  then have mem: "e \<in> set (m_changes c)" and it: "m_item e = i"
    by (simp_all add: findEntry_SomeD)
  from inv have "inj_on m_item (set (m_changes c))"
    by (simp add: ledger_inv_def distinct_map)
  then have uniq: "\<forall>e' \<in> set (m_changes c). m_item e' = i \<longrightarrow> e' = e"
    using mem it by (auto dest: inj_onD)
  have "GetStatus c i = m_type e" using e by (simp add: GetStatus_def)
  with e mem it uniq show ?thesis by blast
qed

lemma GetStatus_fresh:
  assumes "findEntry c i = None" "valid_change t"
  shows "GetStatus (Stage clone c i t) i = t"
proof -
  have "Stage clone c i t = makeEntry c i t
      (if operator_and t CHT_TYPE = CHT_MODIFY then Some (clone i) else None)"
    using assms by (simp add: Stage_def Let_def del: chts)
  moreover have "findEntry (makeEntry c i t cp) i = Some \<lparr>m_item = i, m_copy = cp, m_type = t\<rparr>" for cp
    using assms(1) by (simp add: findEntry_def makeEntry_def find_append_new)
  ultimately show ?thesis by (simp add: GetStatus_def del: chts)
qed

text \<open>
  Claim C2. In a ledger that satisfies its invariant, \<^verbatim>\<open>findEntry\<close> answers
  \<open>None\<close> and \<^verbatim>\<open>GetStatus\<close> answers 0 for an item that is not staged, also after
  any sequence of \<^verbatim>\<open>Stage\<close> calls for other items and after \<^verbatim>\<open>clear\<close>; for a
  staged item \<^verbatim>\<open>GetStatus\<close> is the change type of the one record the ledger holds
  for it, which for an item staged for the first time is the type it was staged with.
\<close>

theorem GetStatus_merged_or_zero:
  assumes inv: "ledger_inv c"
  shows "(i \<notin> m_changedItems c \<longrightarrow> findEntry c i = None \<and> GetStatus c i = 0) \<and>
         (i \<in> m_changedItems c \<longrightarrow>
            (\<exists>e \<in> set (m_changes c). findEntry c i = Some e \<and> m_item e = i \<and>
               GetStatus c i = m_type e \<and>
               (\<forall>e' \<in> set (m_changes c). m_item e' = i \<longrightarrow> e' = e))) \<and>
         (i \<notin> m_changedItems c \<and> (\<forall>(j, t) \<in> set calls. j \<noteq> i) \<longrightarrow>
            GetStatus (StageAll clone c calls) i = 0) \<and>
         (i \<notin> m_changedItems c \<and> valid_change t \<longrightarrow> GetStatus (Stage clone c i t) i = t) \<and>
         GetStatus (clear c) i = 0"
proof (intro conjI impI)
  assume "i \<notin> m_changedItems c"
  then show "findEntry c i = None" using inv by (rule GetStatus_absent [rotated])
  then show "GetStatus c i = 0" by (simp add: GetStatus_def)
next
  assume "i \<in> m_changedItems c"
  with inv show "\<exists>e \<in> set (m_changes c). findEntry c i = Some e \<and> m_item e = i \<and>
               GetStatus c i = m_type e \<and>
               (\<forall>e' \<in> set (m_changes c). m_item e' = i \<longrightarrow> e' = e)"
    by (rule GetStatus_present)
next
  assume a: "i \<notin> m_changedItems c \<and> (\<forall>(j, t) \<in> set calls. j \<noteq> i)"
  then have "findEntry (StageAll clone c calls) i = findEntry c i"
    by (simp add: findEntry_StageAll_other)
  also have "\<dots> = None" using a inv by (simp add: GetStatus_absent)
  finally show "GetStatus (StageAll clone c calls) i = 0" by (simp add: GetStatus_def)
next
  assume a: "i \<notin> m_changedItems c \<and> valid_change t"
  then have "findEntry c i = None" using inv by (simp add: GetStatus_absent)
  with a show "GetStatus (Stage clone c i t) i = t" by (simp add: GetStatus_fresh)
next
  show "GetStatus (clear c) i = 0"
    by (simp add: GetStatus_def findEntry_def clear_def)
qed

theorem GetStatus_merged_or_zero_witness:
  "ledger_inv (Stage id (Stage id \<lparr>m_changedItems = {}, m_changes = []\<rparr> 4 (CHT_REMOVE OR CHT_DONE)) 6 CHT_MODIFY) \<and>
   GetStatus (Stage id (Stage id \<lparr>m_changedItems = {}, m_changes = []\<rparr> 4 (CHT_REMOVE OR CHT_DONE)) 6 CHT_MODIFY) 5 = 0 \<and>
   GetStatus (Stage id (Stage id \<lparr>m_changedItems = {}, m_changes = []\<rparr> 4 (CHT_REMOVE OR CHT_DONE)) 6 CHT_MODIFY) 4 = 10 \<and>
   findEntry (Stage id (Stage id \<lparr>m_changedItems = {}, m_changes = []\<rparr> 4 (CHT_REMOVE OR CHT_DONE)) 6 CHT_MODIFY) 5 = None"
proof -
  let ?c = "Stage id (Stage id \<lparr>m_changedItems = {}, m_changes = []\<rparr> 4 (CHT_REMOVE OR CHT_DONE)) 6 CHT_MODIFY"
  have c: "?c = \<lparr>m_changedItems = {4, 6}, m_changes =
      [\<lparr>m_item = 4, m_copy = None, m_type = 10\<rparr>, \<lparr>m_item = 6, m_copy = Some 6, m_type = 4\<rparr>]\<rparr>"
    by (simp add: Stage_def valid_change_def representable_def operator_and_def findEntry_def
        makeEntry_def insert_commute)
  have h: "ledger_inv ?c" unfolding c by (simp add: ledger_inv_def insert_commute)
  from GetStatus_merged_or_zero [OF h, of 5 "[]" id 1] GetStatus_merged_or_zero [OF h, of 4 "[]" id 1] h
  show ?thesis unfolding c by (simp add: GetStatus_def findEntry_def)
qed

text \<open>
  Claim C3. The ledger invariant (at most one record per item identity, the identity set
  being exactly the items of the records) is kept by \<^verbatim>\<open>Stage\<close>, by a sequence of
  \<^verbatim>\<open>Stage\<close> calls, by \<^verbatim>\<open>StageItems\<close>, by \<^verbatim>\<open>Push\<close>, by \<^verbatim>\<open>Revert\<close>
  and by \<^verbatim>\<open>clear\<close>, which leaves both containers empty.
\<close>

theorem ledger_invariant_preserved:
  assumes inv: "ledger_inv c"
  shows "ledger_inv (Stage clone c i t) \<and>
         ledger_inv (StageAll clone c calls) \<and>
         ledger_inv (StageItems (Stage clone) c items t) \<and>
         ledger_inv (snd (Push c msg u d k)) \<and>
         ledger_inv (snd (Revert c)) \<and>
         ledger_inv (clear c) \<and> m_changedItems (clear c) = {} \<and> m_changes (clear c) = []"
proof -
  have "ledger_inv (StageItems (Stage clone) c' items t)" if "ledger_inv c'" for c'
    using that by (induction items arbitrary: c') (simp_all add: inv_Stage)
  then show ?thesis using inv
    by (simp add: inv_Stage inv_StageAll inv_clear Push_def Revert_def)
       (simp add: clear_def)
qed

theorem ledger_invariant_preserved_witness:
  "ledger_inv \<lparr>m_changedItems = {1, 2}, m_changes =
      [\<lparr>m_item = 1, m_copy = None, m_type = CHT_ADD\<rparr>, \<lparr>m_item = 2, m_copy = Some 7, m_type = CHT_MODIFY\<rparr>]\<rparr> \<and>
   ledger_inv (Stage id \<lparr>m_changedItems = {1, 2}, m_changes =
      [\<lparr>m_item = 1, m_copy = None, m_type = CHT_ADD\<rparr>, \<lparr>m_item = 2, m_copy = Some 7, m_type = CHT_MODIFY\<rparr>]\<rparr>
      2 CHT_REMOVE) \<and>
   Stage id \<lparr>m_changedItems = {1, 2}, m_changes =
      [\<lparr>m_item = 1, m_copy = None, m_type = CHT_ADD\<rparr>, \<lparr>m_item = 2, m_copy = Some 7, m_type = CHT_MODIFY\<rparr>]\<rparr>
      2 CHT_REMOVE =
     \<lparr>m_changedItems = {1, 2}, m_changes =
      [\<lparr>m_item = 1, m_copy = None, m_type = CHT_ADD\<rparr>, \<lparr>m_item = 2, m_copy = None, m_type = CHT_REMOVE\<rparr>]\<rparr>"
proof -
  let ?c = "\<lparr>m_changedItems = {1, 2}, m_changes =
      [\<lparr>m_item = 1, m_copy = None, m_type = CHT_ADD\<rparr>, \<lparr>m_item = 2, m_copy = Some 7, m_type = CHT_MODIFY\<rparr>]\<rparr>"
  have h: "ledger_inv ?c" by (simp add: ledger_inv_def)
  from ledger_invariant_preserved [OF h, of id 2 CHT_REMOVE "[]" "[]" "''m''" True True True] h
  show ?thesis
    by (simp add: Stage_def valid_change_def representable_def operator_and_def operator_or_def
        findEntry_def replaceEntry_def)
qed

section \<open>Properties of the footprint list\<close>

lemmas example_defs =
  loader_example_def list_example_def reporter_example_def PrefetchLib_example_def fp_example_def

lemmas loader_defs =
  ReadFootprintFiles_def SetMaxProgress_def Report_def AdvancePhase_def AdvanceProgress_def
  stopWorkers_def loader_job_def loader_step_def CatchErrors_def prefetch_def THROW_IO_ERROR_def
  Let_def

lemmas entry_eval =
  entry_at_def raises_def nth_line_def wx_example_def fp_example_def

lemma CatchErrors_frame:
  assumes "\<And>s e s'. aFunc s = (e, s') \<Longrightarrow>
      m_cancelled s' = m_cancelled s \<and> m_list_timestamp s' = m_list_timestamp s \<and>
      m_queue_in s' = m_queue_in s"
  shows "m_cancelled (snd (CatchErrors aFunc s)) = m_cancelled s \<and>
         m_list_timestamp (snd (CatchErrors aFunc s)) = m_list_timestamp s \<and>
         m_queue_in (snd (CatchErrors aFunc s)) = m_queue_in s"
proof (cases "aFunc s")
  case (Pair e s')
  with assms [of s e s'] show ?thesis
    by (cases e) (auto simp: CatchErrors_def split: exn.splits)
qed

lemma prefetch_frame:
  "prefetch P n s = (e, s') \<Longrightarrow>
      m_cancelled s' = m_cancelled s \<and> m_list_timestamp s' = m_list_timestamp s \<and>
      m_queue_in s' = m_queue_in s"
  by (auto simp: prefetch_def split: option.splits)

lemma loader_step_frame:
  "m_cancelled (loader_step P n s) = m_cancelled s \<and>
   m_list_timestamp (loader_step P n s) = m_list_timestamp s"
  using CatchErrors_frame [of "prefetch P n" s, OF prefetch_frame]
  by (simp add: loader_step_def Let_def AdvanceProgress_def split: option.splits)

lemma loader_loop_frame:
  "m_cancelled (loader_loop P q s) = m_cancelled s \<and>
   m_list_timestamp (loader_loop P q s) = m_list_timestamp s"
  by (induction q arbitrary: s) (simp_all add: Let_def loader_step_frame)

lemma loader_job_frame:
  "m_cancelled (loader_job P s) = m_cancelled s \<and>
   m_list_timestamp (loader_job P s) = m_list_timestamp s"
  by (simp add: loader_job_def loader_loop_frame)

lemma loader_jobs_frame:
  "m_cancelled ((loader_job P ^^ n) s) = m_cancelled s \<and>
   m_list_timestamp ((loader_job P ^^ n) s) = m_list_timestamp s"
  by (induction n) (simp_all add: loader_job_frame)

lemma stopWorkers_timestamp:
  "m_cancelled (stopWorkers P s) = m_cancelled s \<and>
   m_list_timestamp (stopWorkers P s) = (if m_cancelled s then 0 else m_list_timestamp s)"
  by (simp add: stopWorkers_def Let_def loader_jobs_frame)

lemma ReadFootprintFiles_loaded:
  assumes "ReadFootprintFiles loader gen rep polls this = Some (ok, s')"
    and "gen \<noteq> m_list_timestamp this"
  shows "m_list_timestamp s' = (if m_cancelled s' then 0 else gen) \<and> ok = (m_errors s' = [])"
  using assms
  by (auto simp: ReadFootprintFiles_def Let_def split: option.splits if_splits)

lemma wait_for_libs_cancelled:
  "m_cancelled s \<Longrightarrow> wait_for_libs polls s = Some s"
  by (cases polls) auto

text \<open>
  Claim C8. When \<^verbatim>\<open>ReadFootprintFiles\<close> runs a load (the generated timestamp differs
  from the stored one) and returns, the stored timestamp is 0 if the cancellation flag is
  set and the freshly generated timestamp if it is not, whatever the loader and the other
  threads did. \<^verbatim>\<open>stopWorkers\<close> resets the timestamp to 0 when the flag is set, keeps
  the flag, and leaves the timestamp alone when the flag is not set. The flag is set, and
  the wait for the libraries ends, as soon as the progress reporter refuses to keep
  refreshing while the load is still waiting.
\<close>

theorem cancelled_load_resets_timestamp:
  assumes "ReadFootprintFiles loader gen rep polls this = Some (ok, s')"
    and "gen \<noteq> m_list_timestamp this"
  shows "(m_cancelled s' \<longrightarrow> m_list_timestamp s' = 0) \<and>
         (\<not> m_cancelled s' \<longrightarrow> m_list_timestamp s' = gen) \<and>
         (m_cancelled t \<longrightarrow>
            m_list_timestamp (stopWorkers P t) = 0 \<and> m_cancelled (stopWorkers P t)) \<and>
         (\<not> m_cancelled t \<longrightarrow> m_list_timestamp (stopWorkers P t) = m_list_timestamp t) \<and>
         (m_progress_reporter w \<noteq> None \<and> \<not> m_cancelled w \<and>
          int (m_count_finished w) < m_total_libs w \<longrightarrow>
            wait_for_libs ((False, n) # polls') w
              = Some (w\<lparr>m_cancelled := True, m_count_finished := n\<rparr>))"
  using ReadFootprintFiles_loaded [OF assms]
  by (simp add: stopWorkers_timestamp wait_for_libs_cancelled)

theorem cancelled_load_resets_timestamp_witness:
  "(case ReadFootprintFiles loader_example 7 (Some reporter_example) [(True, 1), (False, 2)]
           list_example of
      None \<Rightarrow> False
    | Some (ok, s) \<Rightarrow> m_cancelled s \<and> m_list_timestamp s = 0) \<and>
   (case ReadFootprintFiles loader_example 7 (Some reporter_example) [(True, 1), (True, 4)]
           list_example of
      None \<Rightarrow> False
    | Some (ok, s) \<Rightarrow> \<not> m_cancelled s \<and> m_list_timestamp s = 7) \<and>
   m_list_timestamp (stopWorkers PrefetchLib_example (list_example\<lparr>m_cancelled := True\<rparr>)) = 0"
proof -
  have ne: "7 \<noteq> m_list_timestamp list_example" by (simp add: list_example_def)
  obtain ok1 s1 where r1: "ReadFootprintFiles loader_example 7 (Some reporter_example)
      [(True, 1), (False, 2)] list_example = Some (ok1, s1)" and c1: "m_cancelled s1"
    by (auto simp: example_defs loader_defs)
  obtain ok2 s2 where r2: "ReadFootprintFiles loader_example 7 (Some reporter_example)
      [(True, 1), (True, 4)] list_example = Some (ok2, s2)" and c2: "\<not> m_cancelled s2"
    by (auto simp: example_defs loader_defs)
  have c3: "m_cancelled (list_example\<lparr>m_cancelled := True\<rparr>)" by simp
  from cancelled_load_resets_timestamp [OF r1 ne, of "list_example\<lparr>m_cancelled := True\<rparr>" PrefetchLib_example list_example 0 "[]"]
    cancelled_load_resets_timestamp [OF r2 ne, of "list_example\<lparr>m_cancelled := True\<rparr>" PrefetchLib_example list_example 0 "[]"]
    c1 c2 c3
  show ?thesis unfolding r1 r2 by simp
qed

text \<open>
  Claim C10. When the timestamp generated from the library table equals the stored list
  timestamp, \<^verbatim>\<open>ReadFootprintFiles\<close> returns true with the list object exactly as it
  was: the footprint list, the error list, the timestamp and every other member are
  unchanged, for every loader, progress reporter and behaviour of the other threads, none
  of which is consulted.
\<close>

theorem unchanged_timestamp_returns_at_once:
  assumes "generatedTimestamp = m_list_timestamp this"
  shows "ReadFootprintFiles loader generatedTimestamp aProgressReporter polls this = Some (True, this)"
  using assms by (simp add: ReadFootprintFiles_def)

theorem unchanged_timestamp_returns_at_once_witness:
  "m_list_timestamp list_example = 42 \<and>
   ReadFootprintFiles loader_example 42 (Some reporter_example) [] list_example
     = Some (True, list_example)"
proof -
  have h: "42 = m_list_timestamp list_example" by (simp add: list_example_def)
  from unchanged_timestamp_returns_at_once [OF h, of loader_example "Some reporter_example" "[]"] h
  show ?thesis by simp
qed

lemma CatchErrors_result:
  "CatchErrors aFunc s =
     (fst (aFunc s) = None,
      (case fst (aFunc s) of
         None \<Rightarrow> snd (aFunc s)
       | Some e \<Rightarrow> (snd (aFunc s))\<lparr>m_errors := m_errors (snd (aFunc s)) @ [recorded e]\<rparr>))"
  by (cases "aFunc s")
     (auto simp: CatchErrors_def recorded_def THROW_IO_ERROR_def split: option.splits exn.splits)

lemma loader_step_fields:
  "m_queue_out (loader_step P n s) = m_queue_out s @ (if P n = None then [n] else []) \<and>
   m_errors (loader_step P n s) = m_errors s @ (case P n of None \<Rightarrow> [] | Some e \<Rightarrow> [recorded e]) \<and>
   m_count_finished (loader_step P n s) = m_count_finished s + 1 \<and>
   m_queue_in (loader_step P n s) = m_queue_in s \<and>
   m_cancelled (loader_step P n s) = m_cancelled s"
  by (cases "P n")
     (simp_all add: loader_step_def Let_def CatchErrors_result prefetch_def AdvanceProgress_def
        split: option.splits)

lemma loader_loop_runs_all:
  "\<not> m_cancelled s \<Longrightarrow>
   m_queue_out (loader_loop P q s) = m_queue_out s @ filter (\<lambda>n. P n = None) q \<and>
   m_errors (loader_loop P q s) = m_errors s @ List.map_filter (\<lambda>n. map_option recorded (P n)) q \<and>
   m_count_finished (loader_loop P q s) = m_count_finished s + length q \<and>
   m_queue_in (loader_loop P q s) = (if q = [] then m_queue_in s else [])"
proof (induction q arbitrary: s)
  case Nil
  then show ?case by (simp add: map_filter_simps)
next
  case (Cons n q)
  let ?s1 = "loader_step P n (s\<lparr>m_queue_in := q\<rparr>)"
  have nc: "\<not> m_cancelled ?s1" using Cons.prems by (simp add: loader_step_fields)
  have step: "loader_loop P (n # q) s = loader_loop P q ?s1"
    using Cons.prems by (simp add: Let_def)
  show ?case
    unfolding step using Cons.IH [OF nc]
    by (cases "P n") (simp_all add: loader_step_fields map_filter_simps)
qed

text \<open>
  Claim C9. \<^verbatim>\<open>CatchErrors\<close> returns true exactly when the wrapped function raises
  nothing, and then leaves the list as the function left it; an \<^verbatim>\<open>IO_ERROR\<close> is
  appended to the error list as it is and a \<^verbatim>\<open>std::exception\<close> as an
  \<^verbatim>\<open>IO_ERROR\<close> of its message. A worker that is not cancelled goes through the whole
  queue: every library is counted as finished, the libraries that loaded are in the
  output queue in their order and each failure is one entry of the error list.
  \<^verbatim>\<open>ReadFootprintFiles\<close>, when it runs a load, returns whether the error list is
  empty.
\<close>

theorem failed_library_does_not_abort_load:
  assumes "\<not> m_cancelled this"
    and "ReadFootprintFiles loader gen rep polls lst = Some (ok, lst')"
    and "gen \<noteq> m_list_timestamp lst"
  shows "fst (CatchErrors aFunc s) = (fst (aFunc s) = None) \<and>
         (fst (aFunc s) = None \<longrightarrow> snd (CatchErrors aFunc s) = snd (aFunc s)) \<and>
         (\<forall>ioe. fst (aFunc s) = Some (Throw_IO_ERROR ioe) \<longrightarrow>
            m_errors (snd (CatchErrors aFunc s)) = m_errors (snd (aFunc s)) @ [ioe]) \<and>
         (\<forall>what. fst (aFunc s) = Some (Throw_std_exception what) \<longrightarrow>
            m_errors (snd (CatchErrors aFunc s)) = m_errors (snd (aFunc s)) @ [IO_ERROR what]) \<and>
         m_queue_in (loader_job PrefetchLib this) = [] \<and>
         m_count_finished (loader_job PrefetchLib this)
           = m_count_finished this + length (m_queue_in this) \<and>
         m_queue_out (loader_job PrefetchLib this)
           = m_queue_out this @ filter (\<lambda>n. PrefetchLib n = None) (m_queue_in this) \<and>
         m_errors (loader_job PrefetchLib this)
           = m_errors this @ List.map_filter (\<lambda>n. map_option recorded (PrefetchLib n)) (m_queue_in this) \<and>
         ok = (m_errors lst' = [])"
proof -
  have "ok = (m_errors lst' = [])"
    using ReadFootprintFiles_loaded [OF assms(2,3)] by simp
  moreover have "m_queue_in (loader_job PrefetchLib this) = []"
    using loader_loop_runs_all [OF assms(1), of PrefetchLib "m_queue_in this"]
    by (simp add: loader_job_def)
  ultimately show ?thesis
    using loader_loop_runs_all [OF assms(1), of PrefetchLib "m_queue_in this"]
    by (simp add: CatchErrors_result loader_job_def recorded_def)
qed

theorem failed_library_does_not_abort_load_witness:
  "\<not> m_cancelled (Start loader_example list_example) \<and>
   m_queue_in (Start loader_example list_example) = [''good'', ''broken'', ''missing'', ''fine''] \<and>
   m_errors (loader_job PrefetchLib_example (Start loader_example list_example))
     = [IO_ERROR ''parse error'', IO_ERROR ''no such file''] \<and>
   m_queue_out (loader_job PrefetchLib_example (Start loader_example list_example))
     = [''good'', ''fine''] \<and>
   m_count_finished (loader_job PrefetchLib_example (Start loader_example list_example)) = 4 \<and>
   CatchErrors (prefetch PrefetchLib_example ''broken'') list_example
     = (False, list_example\<lparr>m_errors := [IO_ERROR ''parse error'']\<rparr>) \<and>
   map_option fst (ReadFootprintFiles loader_example 7 (Some reporter_example)
       [(True, 1), (True, 4)] list_example) = Some False"
proof -
  have nc: "\<not> m_cancelled (Start loader_example list_example)"
    by (simp add: example_defs)
  have ne: "7 \<noteq> m_list_timestamp list_example" by (simp add: list_example_def)
  obtain ok s where r: "ReadFootprintFiles loader_example 7 (Some reporter_example)
      [(True, 1), (True, 4)] list_example = Some (ok, s)" and e: "m_errors s \<noteq> []"
    by (auto simp: example_defs loader_defs)
  have q: "m_queue_in (Start loader_example list_example) = [''good'', ''broken'', ''missing'', ''fine'']"
    "m_errors (Start loader_example list_example) = []"
    "m_queue_out (Start loader_example list_example) = []"
    "m_count_finished (Start loader_example list_example) = 0"
    by (simp_all add: example_defs)
  have c: "prefetch PrefetchLib_example ''broken'' list_example
      = (Some (Throw_std_exception ''parse error''), list_example)"
    by (simp add: prefetch_def PrefetchLib_example_def)
  note t = failed_library_does_not_abort_load [OF nc r ne,
      of "prefetch PrefetchLib_example ''broken''" list_example PrefetchLib_example]
  have j: "m_errors (loader_job PrefetchLib_example (Start loader_example list_example))
       = [IO_ERROR ''parse error'', IO_ERROR ''no such file'']"
    "m_queue_out (loader_job PrefetchLib_example (Start loader_example list_example))
       = [''good'', ''fine'']"
    "m_count_finished (loader_job PrefetchLib_example (Start loader_example list_example)) = 4"
    using t unfolding q
    by (simp_all add: PrefetchLib_example_def map_filter_simps recorded_def)
  have ce: "CatchErrors (prefetch PrefetchLib_example ''broken'') list_example
     = (False, list_example\<lparr>m_errors := [IO_ERROR ''parse error'']\<rparr>)"
    by (simp add: CatchErrors_def prefetch_def PrefetchLib_example_def THROW_IO_ERROR_def
        list_example_def)
  have okf: "\<not> ok" using t e by simp
  have m: "map_option fst (ReadFootprintFiles loader_example 7 (Some reporter_example)
       [(True, 1), (True, 4)] list_example) = Some False"
    unfolding r using okf by simp
  from nc q(1) j ce m show ?thesis by (intro conjI)
qed

lemma sanity_check_fields:
  "m_list (sanity_check s) = m_list s \<and>
   m_list_timestamp (sanity_check s) = (if m_list s = [] then 0 else m_list_timestamp s)"
  by (simp add: sanity_check_def)

lemma line_at_nth_line: "n \<le> length lines \<Longrightarrow> line_at lines n = Inr (nth_line lines n)"
  by (simp add: line_at_def nth_line_def)

lemma guard_iff: "7 * k + 6 < (n::nat) \<longleftrightarrow> k < n div 7"
proof -
  have "k < n div 7 \<longleftrightarrow> Suc k \<le> n div 7" by (simp add: Suc_le_eq)
  also have "\<dots> \<longleftrightarrow> Suc k * 7 \<le> n" by (simp add: less_eq_div_iff_mult_less_eq)
  also have "\<dots> \<longleftrightarrow> 7 * k + 6 < n" by simp linarith
  finally show ?thesis by simp
qed

lemma ex_shift:
  "\<not> P k \<Longrightarrow> (\<exists>j. k \<le> j \<and> j < (n::nat) \<and> P j) \<longleftrightarrow> (\<exists>j. Suc k \<le> j \<and> j < n \<and> P j)"
proof
  assume np: "\<not> P k" and "\<exists>j. k \<le> j \<and> j < n \<and> P j"
  then obtain j where j: "k \<le> j" "j < n" "P j" by blast
  with np have "j \<noteq> k" by blast
  with j have "Suc k \<le> j" by simp
  with j show "\<exists>j. Suc k \<le> j \<and> j < n \<and> P j" by blast
next
  assume "\<exists>j. Suc k \<le> j \<and> j < n \<and> P j"
  then obtain j where "Suc k \<le> j" "j < n" "P j" by blast
  then have "k \<le> j \<and> j < n \<and> P j" by simp
  then show "\<exists>j. k \<le> j \<and> j < n \<and> P j" by blast
qed

lemma raises_iff: "raises wx lines k \<longleftrightarrow> entry_at wx lines k = None"
  by (simp add: raises_def entry_at_def split: option.splits)

lemma read_footprint_entry_at:
  assumes "k < length lines div 7"
  shows "read_footprint wx lines (7 * k)
           = (case entry_at wx lines k of None \<Rightarrow> Inl Exception | Some fp \<Rightarrow> Inr fp)"
proof -
  have "7 * k + 6 < length lines" using assms by (simp add: guard_iff)
  then have "7 * k + 7 \<le> length lines" by simp
  then have l: "line_at lines (7 * k + 1) = Inr (nth_line lines (7 * k + 1))"
    "line_at lines (7 * k + 2) = Inr (nth_line lines (7 * k + 2))"
    "line_at lines (7 * k + 3) = Inr (nth_line lines (7 * k + 3))"
    "line_at lines (7 * k + 4) = Inr (nth_line lines (7 * k + 4))"
    "line_at lines (7 * k + 5) = Inr (nth_line lines (7 * k + 5))"
    "line_at lines (7 * k + 6) = Inr (nth_line lines (7 * k + 6))"
    "line_at lines (7 * k + 7) = Inr (nth_line lines (7 * k + 7))"
    by (simp_all add: line_at_nth_line)
  show ?thesis
    unfolding read_footprint_def l entry_at_def
    by (simp split: option.splits)
qed

lemma read_footprints_from:
  "k \<le> length lines div 7 \<Longrightarrow> m = length lines div 7 - k \<Longrightarrow>
   fst (read_footprints wx lines (7 * k) acc)
     = (if \<exists>j. k \<le> j \<and> j < length lines div 7 \<and> raises wx lines j then Some Exception else None) \<and>
   map Some (snd (read_footprints wx lines (7 * k) acc))
     = map Some acc @ map (entry_at wx lines)
         (takeWhile (\<lambda>j. \<not> raises wx lines j) [k..<length lines div 7])"
proof (induction m arbitrary: k acc)
  case 0
  then have "k = length lines div 7" by simp
  then have "\<not> 7 * k + 6 < length lines" by (simp add: guard_iff)
  then show ?case using \<open>k = length lines div 7\<close>
    by (simp add: read_footprints.simps)
next
  case (Suc m)
  then have lt: "k < length lines div 7" by simp
  then have g: "7 * k + 6 < length lines" by (simp add: guard_iff)
  have upt: "[k..<length lines div 7] = k # [Suc k..<length lines div 7]"
    using lt by (simp add: upt_conv_Cons)
  show ?case
  proof (cases "entry_at wx lines k")
    case None
    then have r: "raises wx lines k" by (simp add: raises_iff)
    have "read_footprints wx lines (7 * k) acc = (Some Exception, acc)"
      using g None by (simp add: read_footprints.simps read_footprint_entry_at [OF lt])
    moreover have "\<exists>j. k \<le> j \<and> j < length lines div 7 \<and> raises wx lines j"
      using r lt by blast
    ultimately show ?thesis using r by (simp add: upt)
  next
    case (Some fp)
    then have nr: "\<not> raises wx lines k" by (simp add: raises_iff)
    have step: "read_footprints wx lines (7 * k) acc
        = read_footprints wx lines (7 * Suc k) (acc @ [fp])"
      using g Some by (subst read_footprints.simps) (simp add: read_footprint_entry_at [OF lt] add.commute)
    have ih: "fst (read_footprints wx lines (7 * Suc k) (acc @ [fp]))
       = (if \<exists>j. Suc k \<le> j \<and> j < length lines div 7 \<and> raises wx lines j
          then Some Exception else None) \<and>
      map Some (snd (read_footprints wx lines (7 * Suc k) (acc @ [fp])))
       = map Some (acc @ [fp]) @ map (entry_at wx lines)
           (takeWhile (\<lambda>j. \<not> raises wx lines j) [Suc k..<length lines div 7])"
      by (rule Suc.IH) (use Suc.prems in simp_all)
    have ex: "(\<exists>j. k \<le> j \<and> j < length lines div 7 \<and> raises wx lines j)
        \<longleftrightarrow> (\<exists>j. Suc k \<le> j \<and> j < length lines div 7 \<and> raises wx lines j)"
      using nr by (rule ex_shift)
    show ?thesis
      unfolding step ex using ih nr Some by (simp add: upt)
  qed
qed

lemma read_footprints_all:
  "fst (read_footprints wx lines 0 [])
     = (if \<exists>k < length lines div 7. raises wx lines k then Some Exception else None) \<and>
   map Some (snd (read_footprints wx lines 0 []))
     = map (entry_at wx lines) (takeWhile (\<lambda>k. \<not> raises wx lines k) [0..<length lines div 7])"
  using read_footprints_from [of 0 lines "length lines div 7" wx "[]"] by simp

text \<open>
  Claim C6. \<^verbatim>\<open>ReadCacheFromFile\<close> always returns, and only the list and the timestamp
  change. When the file does not exist the list is empty and the timestamp is 0. When it
  exists, the list holds the entries of the file, in order, up to the first entry on
  whose description or keywords line \<^verbatim>\<open>UnescapeString\<close> raises an exception; the
  timestamp is 0 when such an exception was raised (whatever the list then holds) and when
  the resulting list is empty, and in every other case it is what \<^verbatim>\<open>ToLongLong\<close>
  made of the first line.
\<close>

theorem cache_invalidated_on_error_or_empty:
  "ReadCacheFromFile wx None this = Some (this\<lparr>m_list := [], m_list_timestamp := 0\<rparr>) \<and>
   (\<exists>s'. ReadCacheFromFile wx (Some lines) this = Some s' \<and>
      map Some (m_list s')
        = map (entry_at wx lines)
            (takeWhile (\<lambda>k. \<not> raises wx lines k) [0..<length lines div 7]) \<and>
      m_list_timestamp s'
        = (if (\<exists>k < length lines div 7. raises wx lines k) \<or> m_list s' = [] then 0
           else ToLongLong wx (nth_line lines 0) 0) \<and>
      s'\<lparr>m_list := m_list this, m_list_timestamp := m_list_timestamp this\<rparr> = this)"
proof
  show "ReadCacheFromFile wx None this = Some (this\<lparr>m_list := [], m_list_timestamp := 0\<rparr>)"
    by (cases this) (simp add: ReadCacheFromFile_def Let_def sanity_check_def)
next
  obtain e lst where rf: "read_footprints wx lines 0 [] = (e, lst)" by fastforce
  have e: "e = (if \<exists>k < length lines div 7. raises wx lines k then Some Exception else None)"
    and lst: "map Some lst = map (entry_at wx lines)
            (takeWhile (\<lambda>k. \<not> raises wx lines k) [0..<length lines div 7])"
    using read_footprints_all [of wx lines] rf by simp_all
  let ?T = "if (\<exists>k < length lines div 7. raises wx lines k) \<or> lst = [] then 0
           else ToLongLong wx (nth_line lines 0) 0"
  have first: "line_at lines 0 = Inr (nth_line lines 0)" by (simp add: line_at_nth_line)
  have r: "ReadCacheFromFile wx (Some lines) this
             = Some (this\<lparr>m_list := lst, m_list_timestamp := ?T\<rparr>)"
  proof (cases "\<exists>k < length lines div 7. raises wx lines k")
    case True
    with rf e first show ?thesis
      by (cases this) (simp add: ReadCacheFromFile_def Let_def sanity_check_def)
  next
    case False
    with rf e first show ?thesis
      by (cases this) (auto simp: ReadCacheFromFile_def Let_def sanity_check_def)
  qed
  show "\<exists>s'. ReadCacheFromFile wx (Some lines) this = Some s' \<and>
      map Some (m_list s')
        = map (entry_at wx lines)
            (takeWhile (\<lambda>k. \<not> raises wx lines k) [0..<length lines div 7]) \<and>
      m_list_timestamp s'
        = (if (\<exists>k < length lines div 7. raises wx lines k) \<or> m_list s' = [] then 0
           else ToLongLong wx (nth_line lines 0) 0) \<and>
      s'\<lparr>m_list := m_list this, m_list_timestamp := m_list_timestamp this\<rparr> = this"
    unfolding r using lst by (cases this) simp
qed

theorem cache_invalidated_on_error_or_empty_witness:
  "map_option (\<lambda>s. (m_list s, m_list_timestamp s))
     (ReadCacheFromFile wx_example
        (Some [''42'', ''Resistor_SMD'', ''R_0603'', ''two{return}lines'', ''resistor'',
               ''1'', ''2'', ''2'']) (list_example\<lparr>m_list := []\<rparr>))
     = Some ([fp_example], 42) \<and>
   map_option (\<lambda>s. (m_list s, m_list_timestamp s))
     (ReadCacheFromFile wx_example
        (Some [''42'', ''Resistor_SMD'', ''R_0603'', ''two{return}lines'', ''resistor'',
               ''1'', ''2'', ''2'',
               ''Resistor_SMD'', ''R_0805'', ''plain'', ''{bad}'', ''1'', ''2'', ''2''])
        list_example)
     = Some ([fp_example], 0) \<and>
   map_option (\<lambda>s. (m_list s, m_list_timestamp s))
     (ReadCacheFromFile wx_example (Some [''42'']) list_example) = Some ([], 0) \<and>
   map_option (\<lambda>s. (m_list s, m_list_timestamp s))
     (ReadCacheFromFile wx_example (Some []) list_example) = Some ([], 0) \<and>
   map_option (\<lambda>s. (map m_unique_pad_count (m_list s), m_list_timestamp s))
     (ReadCacheFromFile wx_example
        (Some [''42'', ''Resistor_SMD'', ''R_0603'', ''plain'', ''resistor'', ''1'', ''2''])
        list_example)
     = Some ([0], 42) \<and>
   ReadCacheFromFile wx_example None list_example
     = Some (list_example\<lparr>m_list := [], m_list_timestamp := 0\<rparr>)"
proof -
  let ?good = "[''42'', ''Resistor_SMD'', ''R_0603'', ''two{return}lines'', ''resistor'',
               ''1'', ''2'', ''2'']"
  let ?bad = "[''42'', ''Resistor_SMD'', ''R_0603'', ''two{return}lines'', ''resistor'',
               ''1'', ''2'', ''2'',
               ''Resistor_SMD'', ''R_0805'', ''plain'', ''{bad}'', ''1'', ''2'', ''2'']"
  let ?short = "[''42'', ''Resistor_SMD'', ''R_0603'', ''plain'', ''resistor'', ''1'', ''2'']"
  have two: "[0..<2] = [0, 1]" by (simp add: upt_rec)
  have one: "[0..<1] = [0]" by (simp add: upt_rec)
  \<comment> \<open>the file written for the example\<close>
  obtain s1 where r1: "ReadCacheFromFile wx_example (Some ?good) (list_example\<lparr>m_list := []\<rparr>) = Some s1"
    and l1: "map Some (m_list s1) = map (entry_at wx_example ?good)
              (takeWhile (\<lambda>k. \<not> raises wx_example ?good k) [0..<length ?good div 7])"
    and t1: "m_list_timestamp s1
        = (if (\<exists>k < length ?good div 7. raises wx_example ?good k) \<or> m_list s1 = [] then 0
           else ToLongLong wx_example (nth_line ?good 0) 0)"
    using cache_invalidated_on_error_or_empty [of wx_example "list_example\<lparr>m_list := []\<rparr>" ?good]
    by (elim conjE exE)
  have "map Some (m_list s1) = map Some [fp_example]"
    unfolding l1 by (simp add: one entry_eval)
  then have m1: "m_list s1 = [fp_example]" by (auto simp: map_eq_Cons_conv)
  have n1: "\<not> (\<exists>k < length ?good div 7. raises wx_example ?good k)"
    by (simp add: entry_eval)
  have c1: "map_option (\<lambda>s. (m_list s, m_list_timestamp s))
     (ReadCacheFromFile wx_example (Some ?good) (list_example\<lparr>m_list := []\<rparr>))
     = Some ([fp_example], 42)"
    unfolding r1 using m1 t1 n1 by (simp add: nth_line_def wx_example_def)
  \<comment> \<open>an exception on the keywords line of the second entry\<close>
  obtain s2 where r2: "ReadCacheFromFile wx_example (Some ?bad) list_example = Some s2"
    and l2: "map Some (m_list s2) = map (entry_at wx_example ?bad)
              (takeWhile (\<lambda>k. \<not> raises wx_example ?bad k) [0..<length ?bad div 7])"
    and t2: "m_list_timestamp s2
        = (if (\<exists>k < length ?bad div 7. raises wx_example ?bad k) \<or> m_list s2 = [] then 0
           else ToLongLong wx_example (nth_line ?bad 0) 0)"
    using cache_invalidated_on_error_or_empty [of wx_example list_example ?bad]
    by (elim conjE exE)
  have "map Some (m_list s2) = map Some [fp_example]"
    unfolding l2 by (simp add: two entry_eval)
  then have m2: "m_list s2 = [fp_example]" by (auto simp: map_eq_Cons_conv)
  have "raises wx_example ?bad 1" by (simp add: entry_eval)
  then have e2: "\<exists>k < length ?bad div 7. raises wx_example ?bad k"
    by (intro exI [of _ 1]) simp
  have c2: "map_option (\<lambda>s. (m_list s, m_list_timestamp s))
     (ReadCacheFromFile wx_example (Some ?bad) list_example) = Some ([fp_example], 0)"
    unfolding r2 using m2 t2 e2 by simp
  \<comment> \<open>a file with the timestamp line only, and a file with no line\<close>
  obtain s3 where r3: "ReadCacheFromFile wx_example (Some [''42'']) list_example = Some s3"
    and l3: "map Some (m_list s3) = map (entry_at wx_example [''42''])
              (takeWhile (\<lambda>k. \<not> raises wx_example [''42''] k) [0..<length [''42''] div 7])"
    and t3: "m_list_timestamp s3
        = (if (\<exists>k < length [''42''] div 7. raises wx_example [''42''] k) \<or> m_list s3 = [] then 0
           else ToLongLong wx_example (nth_line [''42''] 0) 0)"
    using cache_invalidated_on_error_or_empty [of wx_example list_example "[''42'']"]
    by (elim conjE exE)
  from l3 have m3: "m_list s3 = []" by simp
  have c3: "map_option (\<lambda>s. (m_list s, m_list_timestamp s))
     (ReadCacheFromFile wx_example (Some [''42'']) list_example) = Some ([], 0)"
    unfolding r3 using m3 t3 by simp
  obtain s4 where r4: "ReadCacheFromFile wx_example (Some []) list_example = Some s4"
    and l4: "map Some (m_list s4) = map (entry_at wx_example [])
              (takeWhile (\<lambda>k. \<not> raises wx_example [] k) [0..<length ([]::string list) div 7])"
    and t4: "m_list_timestamp s4
        = (if (\<exists>k < length ([]::string list) div 7. raises wx_example [] k) \<or> m_list s4 = [] then 0
           else ToLongLong wx_example (nth_line [] 0) 0)"
    using cache_invalidated_on_error_or_empty [of wx_example list_example "[]"]
    by (elim conjE exE)
  from l4 have m4: "m_list s4 = []" by simp
  have c4: "map_option (\<lambda>s. (m_list s, m_list_timestamp s))
     (ReadCacheFromFile wx_example (Some []) list_example) = Some ([], 0)"
    unfolding r4 using m4 t4 by simp
  \<comment> \<open>a file that ends one line early: the last read is at the end of the file\<close>
  obtain s5 where r5: "ReadCacheFromFile wx_example (Some ?short) list_example = Some s5"
    and l5: "map Some (m_list s5) = map (entry_at wx_example ?short)
              (takeWhile (\<lambda>k. \<not> raises wx_example ?short k) [0..<length ?short div 7])"
    and t5: "m_list_timestamp s5
        = (if (\<exists>k < length ?short div 7. raises wx_example ?short k) \<or> m_list s5 = [] then 0
           else ToLongLong wx_example (nth_line ?short 0) 0)"
    using cache_invalidated_on_error_or_empty [of wx_example list_example ?short]
    by (elim conjE exE)
  have "map Some (m_list s5) = map Some
      [\<lparr>m_nickname = ''Resistor_SMD'', m_fpname = ''R_0603'', m_doc = ''plain'',
        m_keywords = ''resistor'', m_num = 1, m_pad_count = 2, m_unique_pad_count = 0\<rparr>]"
    unfolding l5 by (simp add: one entry_eval)
  then have m5: "m_list s5 =
      [\<lparr>m_nickname = ''Resistor_SMD'', m_fpname = ''R_0603'', m_doc = ''plain'',
        m_keywords = ''resistor'', m_num = 1, m_pad_count = 2, m_unique_pad_count = 0\<rparr>]"
    by (auto simp: map_eq_Cons_conv)
  have n5: "\<not> (\<exists>k < length ?short div 7. raises wx_example ?short k)"
    by (simp add: entry_eval)
  have c5: "map_option (\<lambda>s. (map m_unique_pad_count (m_list s), m_list_timestamp s))
     (ReadCacheFromFile wx_example (Some ?short) list_example) = Some ([0], 42)"
    unfolding r5 using m5 t5 n5 by (simp add: nth_line_def wx_example_def)
  have c6: "ReadCacheFromFile wx_example None list_example
     = Some (list_example\<lparr>m_list := [], m_list_timestamp := 0\<rparr>)"
    using cache_invalidated_on_error_or_empty [of wx_example list_example "[]"] by (elim conjE)
  from c1 c2 c3 c4 c5 c6 show ?thesis by (intro conjI)
qed

lemma split_single_line:
  "single_line l \<Longrightarrow> wxTextFile_split cur (l @ endl @ rest) = (cur @ l) # wxTextFile_split [] rest"
  by (induction l arbitrary: cur) (auto simp: single_line_def endl_def)

lemma split_lines_all:
  "\<forall>l \<in> set ls. single_line l \<Longrightarrow>
   wxTextFile_split [] (concat (map (\<lambda>l. l @ endl) ls)) = ls"
  by (induction ls) (simp_all add: split_single_line)

lemma write_footprint_lines:
  "write_footprint wx fp = concat (map (\<lambda>l. l @ endl) (entry_lines wx fp))"
  by (simp add: write_footprint_def entry_lines_def)

lemma write_footprints_lines:
  "concat (map (write_footprint wx) fps)
     = concat (map (\<lambda>l. l @ endl) (concat (map (entry_lines wx) fps)))"
  by (induction fps) (simp_all add: write_footprint_lines)

lemma WriteCacheToFile_text:
  "WriteCacheToFile wx True True this = Some (concat (map (\<lambda>l. l @ endl) (cache_lines wx this)))"
  by (simp add: WriteCacheToFile_def cache_lines_def write_footprints_lines)

lemma length_cache_lines: "length (cache_lines wx this) = 1 + 7 * length (m_list this)"
proof -
  have "length (concat (map (entry_lines wx) fps)) = 7 * length fps" for fps
    by (induction fps) (simp_all add: entry_lines_def)
  then show ?thesis by (simp add: cache_lines_def)
qed

lemma line_at_append:
  "line_at (pre @ xs) (length pre + k) = line_at xs k"
  by (simp add: line_at_def nth_append)

lemma read_footprint_entry:
  assumes "pre \<noteq> []" and "read_back wx fp = Some fp'"
  shows "read_footprint wx (pre @ entry_lines wx fp @ post) (length pre - 1) = Inr fp'"
proof -
  have idx: "length pre - 1 + Suc k = length pre + k" for k
    using assms(1) by (cases pre) simp_all
  have at: "line_at (pre @ entry_lines wx fp @ post) (length pre - 1 + Suc k)
              = line_at (entry_lines wx fp @ post) k" for k
    unfolding idx by (rule line_at_append)
  have nums: "(1::nat) = Suc 0" "(2::nat) = Suc 1" "(3::nat) = Suc 2" "(4::nat) = Suc 3"
    "(5::nat) = Suc 4" "(6::nat) = Suc 5" "(7::nat) = Suc 6" by simp_all
  have l: "line_at (pre @ entry_lines wx fp @ post) (length pre - 1 + 1) = Inr (m_nickname fp)"
    "line_at (pre @ entry_lines wx fp @ post) (length pre - 1 + 2) = Inr (m_fpname fp)"
    "line_at (pre @ entry_lines wx fp @ post) (length pre - 1 + 3)
       = Inr (EscapeString_CTX_LINE wx (m_doc fp))"
    "line_at (pre @ entry_lines wx fp @ post) (length pre - 1 + 4)
       = Inr (EscapeString_CTX_LINE wx (m_keywords fp))"
    "line_at (pre @ entry_lines wx fp @ post) (length pre - 1 + 5) = Inr (Format_d wx (m_num fp))"
    "line_at (pre @ entry_lines wx fp @ post) (length pre - 1 + 6)
       = Inr (Format_u wx (m_pad_count fp))"
    "line_at (pre @ entry_lines wx fp @ post) (length pre - 1 + 7)
       = Inr (Format_u wx (m_unique_pad_count fp))"
    by (subst nums, subst at, simp add: line_at_def entry_lines_def)+
  show ?thesis
    using assms(2) unfolding read_footprint_def l
    by (auto simp: read_back_def split: option.splits)
qed

lemma read_footprints_written:
  assumes "pre \<noteq> []" and "map (read_back wx) fps = map Some fps'"
  shows "read_footprints wx (pre @ concat (map (entry_lines wx) fps)) (length pre - 1) acc
           = (None, acc @ fps')"
  using assms
proof (induction fps arbitrary: pre acc fps')
  case Nil
  then have "\<not> length pre - 1 + 6 < length pre" by (cases pre) simp_all
  with Nil show ?case by (simp add: read_footprints.simps)
next
  case (Cons fp fps)
  from Cons.prems(2) obtain fp' rest where fps': "fps' = fp' # rest"
    and fp': "read_back wx fp = Some fp'" and rest: "map (read_back wx) fps = map Some rest"
    by (cases fps') auto
  let ?lines = "pre @ concat (map (entry_lines wx) (fp # fps))"
  have len: "length (entry_lines wx fp) = 7" by (simp add: entry_lines_def)
  have guard: "length pre - 1 + 6 < length ?lines"
    using Cons.prems(1) len by (cases pre) simp_all
  have entry: "read_footprint wx ?lines (length pre - 1) = Inr fp'"
    using read_footprint_entry [OF Cons.prems(1) fp', of "concat (map (entry_lines wx) fps)"]
    by simp
  have next_cur: "length pre - 1 + 7 = length (pre @ entry_lines wx fp) - 1"
    using Cons.prems(1) len by (cases pre) simp_all
  have "read_footprints wx ?lines (length pre - 1) acc
          = read_footprints wx ?lines (length pre - 1 + 7) (acc @ [fp'])"
    using guard entry by (subst read_footprints.simps) simp
  also have "\<dots> = read_footprints wx ((pre @ entry_lines wx fp) @ concat (map (entry_lines wx) fps))
                      (length (pre @ entry_lines wx fp) - 1) (acc @ [fp'])"
    unfolding next_cur by simp
  also have "\<dots> = (None, (acc @ [fp']) @ rest)"
    by (rule Cons.IH) (simp_all add: rest Cons.prems(1))
  finally show ?case by (simp add: fps')
qed

lemma read_back_Some:
  "read_back wx fp = Some e \<Longrightarrow>
   m_nickname e = m_nickname fp \<and> m_fpname e = m_fpname fp \<and>
   Some (m_doc e) = UnescapeString wx (EscapeString_CTX_LINE wx (m_doc fp)) \<and>
   Some (m_keywords e) = UnescapeString wx (EscapeString_CTX_LINE wx (m_keywords fp)) \<and>
   m_num e = wxAtoi wx (Format_d wx (m_num fp)) \<and>
   m_pad_count e = wxAtoi wx (Format_u wx (m_pad_count fp)) \<and>
   m_unique_pad_count e = wxAtoi wx (Format_u wx (m_unique_pad_count fp))"
  by (auto simp: read_back_def split: option.splits)

lemma read_back_fields:
  "map (read_back wx) fps = map Some entries \<Longrightarrow>
   map m_nickname entries = map m_nickname fps \<and>
   map m_fpname entries = map m_fpname fps \<and>
   map (\<lambda>e. Some (m_doc e)) entries
     = map (\<lambda>fp. UnescapeString wx (EscapeString_CTX_LINE wx (m_doc fp))) fps \<and>
   map (\<lambda>e. Some (m_keywords e)) entries
     = map (\<lambda>fp. UnescapeString wx (EscapeString_CTX_LINE wx (m_keywords fp))) fps \<and>
   map m_num entries = map (\<lambda>fp. wxAtoi wx (Format_d wx (m_num fp))) fps \<and>
   map m_pad_count entries = map (\<lambda>fp. wxAtoi wx (Format_u wx (m_pad_count fp))) fps \<and>
   map m_unique_pad_count entries
     = map (\<lambda>fp. wxAtoi wx (Format_u wx (m_unique_pad_count fp))) fps"
proof (induction fps arbitrary: entries)
  case Nil
  then show ?case by simp
next
  case (Cons fp fps)
  then obtain e es where es: "entries = e # es" and e: "read_back wx fp = Some e"
    and tl: "map (read_back wx) fps = map Some es" by (cases entries) auto
  from Cons.IH [OF tl] read_back_Some [OF e] show ?case
    unfolding es by simp
qed

lemma ReadCacheFromFile_written:
  assumes "map (read_back wx) (m_list this) = map Some entries"
  shows "ReadCacheFromFile wx (Some (cache_lines wx this)) other
           = Some (sanity_check (other\<lparr>m_list_timestamp :=
                ToLongLong wx (Format_lld wx (m_list_timestamp this)) 0, m_list := entries\<rparr>))"
proof -
  have "read_footprints wx ([Format_lld wx (m_list_timestamp this)]
            @ concat (map (entry_lines wx) (m_list this))) (length [Format_lld wx (m_list_timestamp this)] - 1) []
          = (None, [] @ entries)"
    by (rule read_footprints_written) (simp_all add: assms)
  then have "read_footprints wx (cache_lines wx this) 0 [] = (None, entries)"
    by (simp add: cache_lines_def)
  then show ?thesis
    by (simp add: ReadCacheFromFile_def Let_def line_at_def cache_lines_def)
qed

text \<open>
  Claim C7. The text \<^verbatim>\<open>WriteCacheToFile\<close> writes is the timestamp followed by, for
  each entry of the list in order, the library nickname, the item name, the escaped
  description, the escaped keywords, the order number, the pad count and the unique pad
  count, each ended by \<^verbatim>\<open>endl\<close>. When none of these strings holds a line end, the
  file has exactly one line plus seven per entry, and \<^verbatim>\<open>ReadCacheFromFile\<close> reads the
  entries back in the same order, each field from the line written for it (where
  \<^verbatim>\<open>UnescapeString\<close> does not raise).
\<close>

theorem cache_file_layout:
  assumes single: "\<forall>l \<in> set (cache_lines wx this). single_line l"
    and reread: "map (read_back wx) (m_list this) = map Some entries"
  shows "cache_lines wx this =
           Format_lld wx (m_list_timestamp this) #
           concat (map (\<lambda>fp. [m_nickname fp, m_fpname fp,
                                EscapeString_CTX_LINE wx (m_doc fp),
                                EscapeString_CTX_LINE wx (m_keywords fp),
                                Format_d wx (m_num fp), Format_u wx (m_pad_count fp),
                                Format_u wx (m_unique_pad_count fp)]) (m_list this)) \<and>
         (\<exists>txt. WriteCacheToFile wx True True this = Some txt \<and>
            txt = concat (map (\<lambda>l. l @ endl) (cache_lines wx this)) \<and>
            wxTextFile_lines txt = cache_lines wx this \<and>
            length (wxTextFile_lines txt) = 1 + 7 * length (m_list this) \<and>
            (\<exists>s'. ReadCacheFromFile wx (Some (wxTextFile_lines txt)) other = Some s' \<and>
               m_list s' = entries \<and>
               length (m_list s') = length (m_list this) \<and>
               map m_nickname (m_list s') = map m_nickname (m_list this) \<and>
               map m_fpname (m_list s') = map m_fpname (m_list this) \<and>
               map (\<lambda>e. Some (m_doc e)) (m_list s')
                 = map (\<lambda>fp. UnescapeString wx (EscapeString_CTX_LINE wx (m_doc fp))) (m_list this) \<and>
               map (\<lambda>e. Some (m_keywords e)) (m_list s')
                 = map (\<lambda>fp. UnescapeString wx (EscapeString_CTX_LINE wx (m_keywords fp))) (m_list this) \<and>
               map m_num (m_list s')
                 = map (\<lambda>fp. wxAtoi wx (Format_d wx (m_num fp))) (m_list this) \<and>
               map m_pad_count (m_list s')
                 = map (\<lambda>fp. wxAtoi wx (Format_u wx (m_pad_count fp))) (m_list this) \<and>
               map m_unique_pad_count (m_list s')
                 = map (\<lambda>fp. wxAtoi wx (Format_u wx (m_unique_pad_count fp))) (m_list this)))"
proof -
  let ?txt = "concat (map (\<lambda>l. l @ endl) (cache_lines wx this))"
  let ?s' = "sanity_check (other\<lparr>m_list_timestamp :=
                ToLongLong wx (Format_lld wx (m_list_timestamp this)) 0, m_list := entries\<rparr>)"
  have order: "cache_lines wx this =
           Format_lld wx (m_list_timestamp this) #
           concat (map (\<lambda>fp. [m_nickname fp, m_fpname fp,
                                EscapeString_CTX_LINE wx (m_doc fp),
                                EscapeString_CTX_LINE wx (m_keywords fp),
                                Format_d wx (m_num fp), Format_u wx (m_pad_count fp),
                                Format_u wx (m_unique_pad_count fp)]) (m_list this))"
    by (simp add: cache_lines_def entry_lines_def [abs_def])
  have w: "WriteCacheToFile wx True True this = Some ?txt" by (rule WriteCacheToFile_text)
  have split: "wxTextFile_lines ?txt = cache_lines wx this"
    unfolding wxTextFile_lines_def using single by (rule split_lines_all)
  have len: "length (wxTextFile_lines ?txt) = 1 + 7 * length (m_list this)"
    unfolding split by (rule length_cache_lines)
  have r: "ReadCacheFromFile wx (Some (wxTextFile_lines ?txt)) other = Some ?s'"
    unfolding split using reread by (rule ReadCacheFromFile_written)
  have l: "m_list ?s' = entries" by (simp add: sanity_check_fields)
  have n: "length entries = length (m_list this)"
    using reread by (metis length_map)
  note f = read_back_fields [OF reread]
  have "\<exists>s'. ReadCacheFromFile wx (Some (wxTextFile_lines ?txt)) other = Some s' \<and>
               m_list s' = entries \<and>
               length (m_list s') = length (m_list this) \<and>
               map m_nickname (m_list s') = map m_nickname (m_list this) \<and>
               map m_fpname (m_list s') = map m_fpname (m_list this) \<and>
               map (\<lambda>e. Some (m_doc e)) (m_list s')
                 = map (\<lambda>fp. UnescapeString wx (EscapeString_CTX_LINE wx (m_doc fp))) (m_list this) \<and>
               map (\<lambda>e. Some (m_keywords e)) (m_list s')
                 = map (\<lambda>fp. UnescapeString wx (EscapeString_CTX_LINE wx (m_keywords fp))) (m_list this) \<and>
               map m_num (m_list s')
                 = map (\<lambda>fp. wxAtoi wx (Format_d wx (m_num fp))) (m_list this) \<and>
               map m_pad_count (m_list s')
                 = map (\<lambda>fp. wxAtoi wx (Format_u wx (m_pad_count fp))) (m_list this) \<and>
               map m_unique_pad_count (m_list s')
                 = map (\<lambda>fp. wxAtoi wx (Format_u wx (m_unique_pad_count fp))) (m_list this)"
    apply (rule exI [of _ ?s'])
    unfolding l using r n f by simp
  with w split len have "\<exists>txt. WriteCacheToFile wx True True this = Some txt \<and>
            txt = concat (map (\<lambda>l. l @ endl) (cache_lines wx this)) \<and>
            wxTextFile_lines txt = cache_lines wx this \<and>
            length (wxTextFile_lines txt) = 1 + 7 * length (m_list this) \<and>
            (\<exists>s'. ReadCacheFromFile wx (Some (wxTextFile_lines txt)) other = Some s' \<and>
               m_list s' = entries \<and>
               length (m_list s') = length (m_list this) \<and>
               map m_nickname (m_list s') = map m_nickname (m_list this) \<and>
               map m_fpname (m_list s') = map m_fpname (m_list this) \<and>
               map (\<lambda>e. Some (m_doc e)) (m_list s')
                 = map (\<lambda>fp. UnescapeString wx (EscapeString_CTX_LINE wx (m_doc fp))) (m_list this) \<and>
               map (\<lambda>e. Some (m_keywords e)) (m_list s')
                 = map (\<lambda>fp. UnescapeString wx (EscapeString_CTX_LINE wx (m_keywords fp))) (m_list this) \<and>
               map m_num (m_list s')
                 = map (\<lambda>fp. wxAtoi wx (Format_d wx (m_num fp))) (m_list this) \<and>
               map m_pad_count (m_list s')
                 = map (\<lambda>fp. wxAtoi wx (Format_u wx (m_pad_count fp))) (m_list this) \<and>
               map m_unique_pad_count (m_list s')
                 = map (\<lambda>fp. wxAtoi wx (Format_u wx (m_unique_pad_count fp))) (m_list this))"
    by blast
  with order show ?thesis by (rule conjI)
qed

theorem cache_file_layout_witness:
  "WriteCacheToFile wx_example True True list_example
     = Some (concat (map (\<lambda>l. l @ endl)
         [''42'', ''Resistor_SMD'', ''R_0603'', ''two{return}lines'', ''resistor'',
          ''1'', ''2'', ''2''])) \<and>
   wxTextFile_lines (concat (map (\<lambda>l. l @ endl)
         [''42'', ''Resistor_SMD'', ''R_0603'', ''two{return}lines'', ''resistor'',
          ''1'', ''2'', ''2'']))
     = [''42'', ''Resistor_SMD'', ''R_0603'', ''two{return}lines'', ''resistor'',
        ''1'', ''2'', ''2''] \<and>
   map_option m_list (ReadCacheFromFile wx_example
       (Some [''42'', ''Resistor_SMD'', ''R_0603'', ''two{return}lines'', ''resistor'',
              ''1'', ''2'', ''2'']) (list_example\<lparr>m_list := []\<rparr>)) = Some [fp_example]"
proof -
  let ?lines = "[''42'', ''Resistor_SMD'', ''R_0603'', ''two{return}lines'', ''resistor'',
          ''1'', ''2'', ''2'']"
  have cl: "cache_lines wx_example list_example = ?lines"
    by (simp add: cache_lines_def entry_lines_def wx_example_def list_example_def fp_example_def)
  have h1: "\<forall>l \<in> set (cache_lines wx_example list_example). single_line l"
    unfolding cl by (simp add: single_line_def)
  have h2: "map (read_back wx_example) (m_list list_example) = map Some [fp_example]"
    by (simp add: read_back_def wx_example_def list_example_def fp_example_def)
  from cache_file_layout [OF h1 h2, of "list_example\<lparr>m_list := []\<rparr>"]
  obtain written s' where w: "WriteCacheToFile wx_example True True list_example = Some written"
    and t: "written = concat (map (\<lambda>l. l @ endl) (cache_lines wx_example list_example))"
    and sp: "wxTextFile_lines written = cache_lines wx_example list_example"
    and r: "ReadCacheFromFile wx_example (Some (wxTextFile_lines written))
              (list_example\<lparr>m_list := []\<rparr>) = Some s'"
    and l: "m_list s' = [fp_example]"
    by (elim conjE exE)
  from w t have c1: "WriteCacheToFile wx_example True True list_example
     = Some (concat (map (\<lambda>l. l @ endl) ?lines))" by (simp only: cl)
  from sp t have c2: "wxTextFile_lines (concat (map (\<lambda>l. l @ endl) ?lines)) = ?lines"
    by (simp only: cl)
  from r sp l have c3: "map_option m_list (ReadCacheFromFile wx_example (Some ?lines)
      (list_example\<lparr>m_list := []\<rparr>)) = Some [fp_example]"
    by (simp only: cl option.map)
  from c1 c2 c3 show ?thesis by (intro conjI)
qed

end
